theory Spec2Isabelle
  imports Complex_Main "HOL-Library.AList"
begin

section \<open>The artifact acquisition pipeline of eas-shared (download.ts)\<close>

text \<open>
  This theory embeds \<^verbatim>\<open>packages/eas-shared/src/download.ts\<close>: the throttled
  progress wrapper around fetch, the download with clean-up, the URL-keyed download
  cache, the two-tier tar extraction and the bundle locator.

  The functions of download.ts are asynchronous and work on the file system, the
  network, a subprocess and a random source. Each of them is embedded as a function
  from a \<open>world\<close> to a result and a new \<open>world\<close>; an exception is the \<open>Inl\<close>
  of a sum. What lies outside download.ts is kept in two records: \<open>env\<close> holds what a
  run cannot change (the platform, the temporary directory, what the server answers,
  what the tar of the platform and the tar package do, the random source, the conversion
  \<open>Number\<close>), \<open>world\<close> holds what a run changes (the directory tree, the requests
  sent, the subprocesses and extractions run, the log, the events handed to the
  progress sink). One call runs at a time: calls that race on one cache directory are
  outside this development.
\<close>

subsection \<open>JavaScript strings and numbers\<close>

text \<open>
  A JavaScript string is modelled by the list of the bytes of its UTF-8 form, an
  Isabelle \<open>string\<close>; URLs and file names are ASCII. \<open>s.endsWith(t)\<close>:
\<close>

definition endsWith :: "string \<Rightarrow> string \<Rightarrow> bool" where
  "endsWith s t = (length t \<le> length s \<and> drop (length s - length t) s = t)"

text \<open>
  \<open>url.replace(/^[^:]+:\/\//, '')\<close>: the pattern is anchored at the start, so the
  only possible match is a non-empty run of characters other than a colon, followed by
  \<open>://\<close>; it is removed when it is there, and the string is unchanged otherwise.
\<close>

definition strip_scheme :: "string \<Rightarrow> string" where
  "strip_scheme url =
     (let scheme = takeWhile (\<lambda>c. c \<noteq> CHR '':'') url;
          rest = dropWhile (\<lambda>c. c \<noteq> CHR '':'') url
      in if scheme \<noteq> [] \<and> take 3 rest = ''://'' then drop 3 rest else url)"

text \<open>
  \<open>encodeURIComponent\<close> (ECMAScript, Encode with the unreserved set of
  URI components): letters, digits and \<open>- _ . ! ~ * ' ( )\<close> are kept, every other
  character is replaced by the escapes \<open>%XX\<close> of its UTF-8 bytes, in upper-case
  hexadecimal. On the bytes of the UTF-8 form this is an escape per byte.
\<close>

definition unreserved :: "char \<Rightarrow> bool" where
  "unreserved c =
     (c \<in> set (''ABCDEFGHIJKLMNOPQRSTUVWXYZabcdefghijklmnopqrstuvwxyz0123456789-_.!~*()''
               @ [CHR 0x27]))"

definition hex_upper :: "nat \<Rightarrow> char" where
  "hex_upper d = ''0123456789ABCDEF'' ! (d mod 16)"

definition percent_escape :: "char \<Rightarrow> string" where
  "percent_escape c =
     [CHR ''%'', hex_upper ((of_char c :: nat) div 16), hex_upper ((of_char c :: nat) mod 16)]"

definition encodeURIComponent :: "string \<Rightarrow> string" where
  "encodeURIComponent s = concat (map (\<lambda>c. if unreserved c then [c] else percent_escape c) s)"

text \<open>
  A JavaScript number, as far as the pipeline meets one: the result of \<open>Number(...)\<close>
  on the Content-Length header. The finite values are rationals (every double is one).
\<close>

datatype jsnum = NaN | NegInf | Fin rat | PosInf

definition isNaN :: "jsnum \<Rightarrow> bool" where
  "isNaN x = (x = NaN)"

text \<open>\<open>x < 0\<close> on a JavaScript number (false for NaN).\<close>

definition js_negative :: "jsnum \<Rightarrow> bool" where
  "js_negative x = (case x of Fin q \<Rightarrow> q < 0 | NegInf \<Rightarrow> True | _ \<Rightarrow> False)"

text \<open>
  \<open>length / total\<close> for a byte count \<open>length\<close>. The quotient of two finite values
  is kept exact here; JavaScript rounds it to a double. No statement below depends on
  the value of \<open>percent\<close>.
\<close>

definition js_div :: "nat \<Rightarrow> jsnum \<Rightarrow> jsnum" where
  "js_div n x =
     (case x of
        NaN \<Rightarrow> NaN
      | NegInf \<Rightarrow> Fin 0
      | PosInf \<Rightarrow> Fin 0
      | Fin q \<Rightarrow> if q = 0 then (if n = 0 then NaN else PosInf) else Fin (of_nat n / q))"

subsection \<open>Paths\<close>

text \<open>
  A path is the list of its components from the root, so that the separator of the
  platform plays no role. \<open>path.join\<close> concatenates and normalises: empty and \<open>.\<close>
  components vanish, \<open>..\<close> removes the component before it (and nothing at the root).
\<close>

type_synonym path = "string list"

definition normalize :: "path \<Rightarrow> path" where
  "normalize p =
     foldl (\<lambda>acc s. if s = [] \<or> s = ''.'' then acc
                     else if s = ''..'' then butlast acc else acc @ [s]) [] p"

definition path_join :: "path \<Rightarrow> path \<Rightarrow> path" where
  "path_join a b = normalize (a @ b)"

definition show_path :: "path \<Rightarrow> string" where
  "show_path p = concat (map (\<lambda>s. CHR ''/'' # s) p)"

subsection \<open>The directory tree\<close>

text \<open>
  A regular file holds a tar archive (the list of its members), other data, or the
  beginning of a download that did not finish. A directory holds named nodes.
\<close>

datatype member = MFile path | MDir path

datatype content = Archive "member list" | Opaque | Truncated

datatype node = File content | Dir "(string \<times> node) list"

fun lookup :: "node \<Rightarrow> path \<Rightarrow> node option" where
  "lookup n [] = Some n"
| "lookup (File c) (s # p) = None"
| "lookup (Dir es) (s # p) = (case map_of es s of None \<Rightarrow> None | Some n \<Rightarrow> lookup n p)"

text \<open>Creating a directory and its missing ancestors; a regular file in the way is an error.\<close>

fun mkdirp :: "node \<Rightarrow> path \<Rightarrow> node option" where
  "mkdirp (File c) p = None"
| "mkdirp (Dir es) [] = Some (Dir es)"
| "mkdirp (Dir es) (s # p) =
     (case mkdirp (case map_of es s of None \<Rightarrow> Dir [] | Some n \<Rightarrow> n) p of
        None \<Rightarrow> None
      | Some n' \<Rightarrow> Some (Dir (AList.update s n' es)))"

text \<open>
  Opening a file for writing creates or truncates it. It fails when the parent
  directory is missing, when a component of the path is a regular file, and when the
  path is a directory.
\<close>

fun store :: "node \<Rightarrow> path \<Rightarrow> content \<Rightarrow> node option" where
  "store n [] c = None"
| "store (File c') (s # p) c = None"
| "store (Dir es) [s] c =
     (case map_of es s of
        Some (Dir ds) \<Rightarrow> None
      | _ \<Rightarrow> Some (Dir (AList.update s (File c) es)))"
| "store (Dir es) (s # p) c =
     (case map_of es s of
        None \<Rightarrow> None
      | Some n \<Rightarrow> (case store n p c of
                     None \<Rightarrow> None
                   | Some n' \<Rightarrow> Some (Dir (AList.update s n' es))))"

text \<open>Removing a path with everything below it; a missing path is not an error.\<close>

fun unlink :: "node \<Rightarrow> path \<Rightarrow> node" where
  "unlink n [] = n"
| "unlink (File c) (s # p) = File c"
| "unlink (Dir es) [s] = Dir (AList.delete s es)"
| "unlink (Dir es) (s # p) =
     (case map_of es s of
        None \<Rightarrow> Dir es
      | Some n \<Rightarrow> Dir (AList.update s (unlink n p) es))"

text \<open>All entries below a node, files and directories, as paths relative to it.\<close>

fun walk :: "node \<Rightarrow> path list" and walk_list :: "(string \<times> node) list \<Rightarrow> path list" where
  "walk (File c) = []"
| "walk (Dir es) = walk_list es"
| "walk_list [] = []"
| "walk_list ((s, n) # es) = ([s] # map ((#) s) (walk n)) @ walk_list es"

text \<open>
  What writing a member of an archive below \<open>out\<close> does to the tree. Empty and \<open>.\<close>
  components of the member's path are dropped; a member with a \<open>..\<close> component, or
  with no component left, is not written. Missing parent directories are created and
  a regular file that is in the way is replaced. A directory that exists stays: a
  directory member is merged into it, and a file member does not replace it.
\<close>

fun member_path :: "member \<Rightarrow> path" where
  "member_path (MFile p) = p"
| "member_path (MDir p) = p"

fun member_node :: "member \<Rightarrow> node" where
  "member_node (MFile p) = File Opaque"
| "member_node (MDir p) = Dir []"

fun place :: "node option \<Rightarrow> path \<Rightarrow> node \<Rightarrow> node" where
  "place (Some (Dir es)) [] new = Dir es"
| "place (Some (File c)) [] new = new"
| "place None [] new = new"
| "place (Some (Dir es)) (s # p) new = Dir (AList.update s (place (map_of es s) p new) es)"
| "place (Some (File c)) (s # p) new = Dir [(s, place None p new)]"
| "place None (s # p) new = Dir [(s, place None p new)]"

definition write_member :: "path \<Rightarrow> node \<Rightarrow> member \<Rightarrow> node" where
  "write_member out r m =
     (let p = filter (\<lambda>s. s \<noteq> [] \<and> s \<noteq> ''.'') (member_path m)
      in if p = [] \<or> ''..'' \<in> set p then r else place (Some r) (out @ p) (member_node m))"

definition write_members :: "node \<Rightarrow> path \<Rightarrow> member list \<Rightarrow> node" where
  "write_members r out ms = foldl (write_member out) r ms"

subsection \<open>Glob matching\<close>

text \<open>
  fast-glob with the pattern \<open>./**/*.(e1|...|en)\<close> and its default options: an entry
  matches when no component of its relative path starts with a dot (hidden entries are
  neither matched nor entered) and its last component ends with a dot and one of the
  alternatives. Other patterns are not used by download.ts and match nothing here.
\<close>

fun split_on :: "char \<Rightarrow> string \<Rightarrow> string list" where
  "split_on c [] = [[]]"
| "split_on c (x # xs) =
     (if x = c then [] # split_on c xs
      else (case split_on c xs of y # ys \<Rightarrow> (x # y) # ys | [] \<Rightarrow> [[x]]))"

definition pattern_extensions :: "string \<Rightarrow> string list option" where
  "pattern_extensions pattern =
     (let pre = ''./**/*.('' in
      if take (length pre) pattern = pre \<and> length pre < length pattern
         \<and> last pattern = CHR '')''
      then Some (split_on CHR ''|'' (butlast (drop (length pre) pattern)))
      else None)"

definition glob_match :: "string \<Rightarrow> path \<Rightarrow> bool" where
  "glob_match pattern r =
     (case pattern_extensions pattern of
        None \<Rightarrow> False
      | Some exts \<Rightarrow>
          r \<noteq> [] \<and> list_all (\<lambda>s. s \<noteq> [] \<and> hd s \<noteq> CHR ''.'') r
          \<and> list_ex (\<lambda>e. endsWith (last r) (CHR ''.'' # e)) exts)"

subsection \<open>Errors, the environment and the world\<close>

record app =
  name :: path
  path :: path

text \<open>
  \<open>Error\<close> is a JavaScript Error with its message; \<open>InternalError\<close> is the class of
  common-types, with its code, its message and its details.
\<close>

datatype error = Error string | InternalError string string "app list"

datatype stream_end = End int | Abort string

text \<open>
  A response: the status flag, the Content-Length header as \<open>headers.get\<close> returns it
  (\<open>None\<close> for null), the chunks of the body, each with its length and with the
  reading of \<open>Date.now()\<close> when it arrives, how the body ends (with the clock reading,
  or with the message of a stream error such as a timeout), and what the bytes are.
\<close>

record response =
  ok :: bool
  content_length :: "string option"
  chunks :: "(nat \<times> int) list"
  ending :: stream_end
  payload :: content

record env =
  platform :: string
  tmpDirectory :: path
  Number :: "string \<Rightarrow> jsnum"
  server :: "string \<Rightarrow> string + response"
  tar_process :: "path \<Rightarrow> path \<Rightarrow> node \<Rightarrow> member list \<times> string option"
  tar_module :: "path \<Rightarrow> path \<Rightarrow> node \<Rightarrow> member list \<times> string option"
  entropy :: "nat \<Rightarrow> nat"

record progress =
  total :: jsnum
  percent :: jsnum
  transferred :: nat

record progress_event =
  progress :: progress
  isComplete :: bool

datatype log_line = NewLine | Info string | Warn string | Debug string

text \<open>An argument of a subprocess: an option or a path.\<close>

datatype arg = Flag string | PathArg path

text \<open>
  The world: the directory tree, the requests sent (URL and timeout), the
  subprocesses started (command and arguments), the calls of the in-process extractor
  (archive and output directory), the log, the events the progress sink received, and
  the number of random identifiers drawn.
\<close>

record world =
  root :: node
  requests :: "(string \<times> nat) list"
  spawned :: "(string \<times> arg list) list"
  extracted :: "(path \<times> path) list"
  logs :: "log_line list"
  sink :: "progress_event list"
  uuid_count :: nat

text \<open>
  The logger (\<^verbatim>\<open>./log\<close>) only records; by the specification, logging is advisory
  and never gates control flow.
\<close>

definition Log_newLine :: "world \<Rightarrow> world" where
  "Log_newLine w = w\<lparr>logs := logs w @ [NewLine]\<rparr>"

definition Log_log :: "string \<Rightarrow> world \<Rightarrow> world" where
  "Log_log m w = w\<lparr>logs := logs w @ [Info m]\<rparr>"

definition Log_warn :: "string \<Rightarrow> world \<Rightarrow> world" where
  "Log_warn m w = w\<lparr>logs := logs w @ [Warn m]\<rparr>"

definition Log_debug :: "string \<Rightarrow> world \<Rightarrow> world" where
  "Log_debug m w = w\<lparr>logs := logs w @ [Debug m]\<rparr>"

subsection \<open>The libraries download.ts calls\<close>

text \<open>fs-extra and fs: \<open>pathExists\<close>, \<open>remove\<close>, \<open>mkdir\<close> with \<open>recursive\<close>, \<open>mkdirpSync\<close>.\<close>

definition fs_pathExists :: "path \<Rightarrow> world \<Rightarrow> bool" where
  "fs_pathExists p w = (lookup (root w) p \<noteq> None)"

definition fs_remove :: "path \<Rightarrow> world \<Rightarrow> world" where
  "fs_remove p w = w\<lparr>root := unlink (root w) p\<rparr>"

definition fs_mkdir :: "path \<Rightarrow> world \<Rightarrow> (error + unit) \<times> world" where
  "fs_mkdir p w =
     (case mkdirp (root w) p of
        None \<Rightarrow> (Inl (Error (''EEXIST: file already exists, mkdir '' @ show_path p)), w)
      | Some r \<Rightarrow> (Inr (), w\<lparr>root := r\<rparr>))"

text \<open>
  fast-glob with \<open>cwd\<close> and \<open>onlyFiles: false\<close>: the matching entries below
  \<open>cwd\<close>, files and directories, relative to it; none when \<open>cwd\<close> does not exist.
\<close>

definition glob :: "string \<Rightarrow> path \<Rightarrow> world \<Rightarrow> path list" where
  "glob pattern cwd w =
     (case lookup (root w) cwd of
        None \<Rightarrow> []
      | Some n \<Rightarrow> filter (glob_match pattern) (walk n))"

text \<open>
  uuid: \<open>uuidv4()\<close> renders 128 random bits as 32 hexadecimal digits in groups of
  8, 4, 4, 4 and 12, with the version digit 4 and a variant digit among 8, 9, a, b.
\<close>

definition hex_lower :: "nat \<Rightarrow> char" where
  "hex_lower d = ''0123456789abcdef'' ! (d mod 16)"

definition uuid_string :: "nat \<Rightarrow> string" where
  "uuid_string x =
     (let h = (\<lambda>i. hex_lower (x div 16 ^ (31 - i)))
      in map h [0..<8] @ ''-'' @ map h [8..<12] @ ''-4'' @ map h [13..<16] @ ''-''
         @ [''89ab'' ! ((x div 16 ^ 15) mod 4)] @ map h [17..<20] @ ''-'' @ map h [20..<32])"

definition uuidv4 :: "env \<Rightarrow> world \<Rightarrow> string \<times> world" where
  "uuidv4 env w =
     (uuid_string (entropy env (uuid_count w)), w\<lparr>uuid_count := Suc (uuid_count w)\<rparr>)"

text \<open>
  The two extractors are programs of their own: the \<open>tar\<close> of the platform, which
  \<open>spawnAsync(command, args)\<close> starts as a subprocess and waits for, and
  \<^verbatim>\<open>extract({file, cwd})\<close> of the tar package, which runs in the process. What each
  does with an archive is a parameter of its own (\<open>tar_process\<close>, \<open>tar_module\<close>):
  for the path of the archive, the output directory and the tree, the members it
  writes, in order, and the message of the error it ends with, if there is one. An
  extractor that ends with an error may have written members before, and they stay
  in the tree; a subprocess that cannot be started is one that writes none. The only
  command download.ts runs is \<open>tar -xf input -C output\<close>. Each extractor records
  that it ran.
\<close>

fun tar_arguments :: "arg list \<Rightarrow> (path \<times> path) option" where
  "tar_arguments [Flag f1, PathArg input, Flag f2, PathArg output] =
     (if f1 = ''-xf'' \<and> f2 = ''-C'' then Some (input, output) else None)"
| "tar_arguments args = None"

definition spawnAsync :: "env \<Rightarrow> string \<Rightarrow> arg list \<Rightarrow> world \<Rightarrow> (error + unit) \<times> world" where
  "spawnAsync env command args w =
     (let w1 = w\<lparr>spawned := spawned w @ [(command, args)]\<rparr> in
      case (if command = ''tar'' then tar_arguments args else None) of
        None \<Rightarrow> (Inl (Error (command @ '' exited with non-zero code: 1'')), w1)
      | Some (input, output) \<Rightarrow>
          (case tar_process env input output (root w1) of
             (ms, failure) \<Rightarrow>
               (let w2 = w1\<lparr>root := write_members (root w1) output ms\<rparr> in
                case failure of
                  Some message \<Rightarrow> (Inl (Error message), w2)
                | None \<Rightarrow> (Inr (), w2))))"

definition tar_extract :: "env \<Rightarrow> path \<Rightarrow> path \<Rightarrow> world \<Rightarrow> (error + unit) \<times> world" where
  "tar_extract env archive cwd w =
     (let w1 = w\<lparr>extracted := extracted w @ [(archive, cwd)]\<rparr> in
      case tar_module env archive cwd (root w1) of
        (ms, failure) \<Rightarrow>
          (let w2 = w1\<lparr>root := write_members (root w1) cwd ms\<rparr> in
           case failure of
             Some message \<Rightarrow> (Inl (Error message), w2)
           | None \<Rightarrow> (Inr (), w2)))"

text \<open>
  Modelled from the spec: \<^verbatim>\<open>./fetch\<close> is not among the sources. By section 4.1 it
  performs an HTTP GET with a bounded timeout and exposes the response, or fails. The
  request is recorded; the answer is the server's.
\<close>

definition fetch :: "env \<Rightarrow> string \<Rightarrow> nat \<Rightarrow> world \<Rightarrow> (error + response) \<times> world" where
  "fetch env url timeout w =
     (let w1 = w\<lparr>requests := requests w @ [(url, timeout)]\<rparr> in
      case server env url of
        Inl message \<Rightarrow> (Inl (Error message), w1)
      | Inr response \<Rightarrow> (Inr response, w1))"

text \<open>
  Modelled from the spec: \<^verbatim>\<open>./progress\<close> is not among the sources. By the glossary
  the progress sink is the callback that receives the transfer-progress events; the
  handler made by \<open>createProgressTracker\<close> is modelled as recording each event it is
  called with. The message templates only decide the text that is shown.
\<close>

definition createProgressTracker :: "string \<Rightarrow> string \<Rightarrow> progress_event \<Rightarrow> world \<Rightarrow> world" where
  "createProgressTracker message completedMessage event w = w\<lparr>sink := sink w @ [event]\<rparr>"

subsection \<open>wrapFetchWithProgress\<close>

text \<open>
  The variables the returned closure and \<open>onProgress\<close> share:
  \<open>didProgressBarFinish\<close> and \<open>lastProgressCallTime\<close> of
  \<open>wrapFetchWithProgress\<close>, and \<open>length\<close> of the fetch (here \<open>length_bytes\<close>). The
  constant \<open>total\<close> of the fetch is the argument \<open>total_size\<close> below, since \<open>total\<close>
  is also a field of the event.
\<close>

record progress_state =
  didProgressBarFinish :: bool
  lastProgressCallTime :: int
  length_bytes :: nat

definition initial_state :: progress_state where
  "initial_state = \<lparr>didProgressBarFinish = False, lastProgressCallTime = 0, length_bytes = 0\<rparr>"

text \<open>
  \<open>onProgress(chunkLength)\<close>, lines 48 to 70, with the reading of \<open>Date.now()\<close> as
  an argument. It returns the new state and the event handed to \<open>progressHandler\<close>,
  if it is called.
\<close>

definition onProgress ::
  "jsnum \<Rightarrow> nat option \<Rightarrow> int \<Rightarrow> progress_state \<Rightarrow> progress_state \<times> progress_event option" where
  "onProgress total_size chunkLength currentTime st =
     (let len = (case chunkLength of None \<Rightarrow> length_bytes st | Some n \<Rightarrow> length_bytes st + n);
          st1 = st\<lparr>length_bytes := len\<rparr>
      in if \<not> didProgressBarFinish st1
            \<and> (currentTime - lastProgressCallTime st1 \<ge> 250 \<or> Fin (of_nat len) = total_size)
         then (st1\<lparr>lastProgressCallTime := currentTime,
                   didProgressBarFinish := (total_size = Fin (of_nat len))\<rparr>,
               Some \<lparr>progress = \<lparr>total = total_size, percent = js_div len total_size,
                                   transferred = len\<rparr>,
                     isComplete = (total_size = Fin (of_nat len))\<rparr>)
         else (st1, None))"

text \<open>
  The events of the body stream that the two listeners (lines 72 to 78) receive, each
  with the clock reading at that moment.
\<close>

datatype body_event = Data nat int | EndOfStream int

fun event_time :: "body_event \<Rightarrow> int" where
  "event_time (Data n t) = t"
| "event_time (EndOfStream t) = t"

fun event_bytes :: "body_event \<Rightarrow> nat" where
  "event_bytes (Data n t) = n"
| "event_bytes (EndOfStream t) = 0"

fun on_event :: "jsnum \<Rightarrow> body_event \<Rightarrow> progress_state \<Rightarrow> progress_state \<times> progress_event option" where
  "on_event total_size (Data n t) st = onProgress total_size (Some n) t st"
| "on_event total_size (EndOfStream t) st = onProgress total_size None t st"

text \<open>The calls of \<open>progressHandler\<close> a sequence of stream events causes: time and event.\<close>

fun deliveries :: "jsnum \<Rightarrow> body_event list \<Rightarrow> progress_state \<Rightarrow> (int \<times> progress_event) list" where
  "deliveries total_size [] st = []"
| "deliveries total_size (ev # evs) st =
     (case on_event total_size ev st of
        (st', None) \<Rightarrow> deliveries total_size evs st'
      | (st', Some e) \<Rightarrow> (event_time ev, e) # deliveries total_size evs st')"

definition body_events :: "response \<Rightarrow> body_event list" where
  "body_events response =
     map (\<lambda>(n, t). Data n t) (chunks response)
     @ (case ending response of End t \<Rightarrow> [EndOfStream t] | Abort message \<Rightarrow> [])"

text \<open>
  The function \<open>wrapFetchWithProgress()\<close> returns, lines 32 to 82. With the response
  it returns the listeners it attached to the body, if any: the total and the handler.
\<close>

type_synonym listeners = "(jsnum \<times> (progress_event \<Rightarrow> world \<Rightarrow> world)) option"

definition warning_no_progress :: "string \<Rightarrow> string" where
  "warning_no_progress url =
     ''Progress callback not supported for network request because Content-Length header missing or invalid in response from URL: '' @ url"

definition wrapFetchWithProgress ::
  "env \<Rightarrow> string \<Rightarrow> nat \<Rightarrow> (progress_event \<Rightarrow> world \<Rightarrow> world) \<Rightarrow> world
     \<Rightarrow> (error + response \<times> listeners) \<times> world" where
  "wrapFetchWithProgress env url init progressHandler w =
     (case fetch env url init w of
        (Inl e, w1) \<Rightarrow> (Inl e, w1)
      | (Inr response, w1) \<Rightarrow>
          if ok response then
            (case content_length response of
               None \<Rightarrow> (Inr (response, None), Log_warn (warning_no_progress url) w1)
             | Some totalDownloadSize \<Rightarrow>
                 (let total_size = Number env totalDownloadSize in
                  if totalDownloadSize = [] \<or> isNaN total_size \<or> js_negative total_size then
                    (Inr (response, None), Log_warn (warning_no_progress url) w1)
                  else (Inr (response, Some (total_size, progressHandler)), w1)))
          else (Inr (response, None), w1))"

text \<open>
  \<open>pipeline(response.body, fs.createWriteStream(outputPath))\<close>: the file is opened,
  the chunks flow through the listeners into it, and the stream ends or fails. A
  stream that fails leaves what was written.
\<close>

definition pipeline :: "response \<Rightarrow> listeners \<Rightarrow> path \<Rightarrow> world \<Rightarrow> (error + unit) \<times> world" where
  "pipeline response attached outputPath w =
     (case store (root w) outputPath Truncated of
        None \<Rightarrow> (Inl (Error (''ENOENT: no such file or directory, open '' @ show_path outputPath)), w)
      | Some r \<Rightarrow>
          (let w1 = w\<lparr>root := r\<rparr>;
               w2 = (case attached of
                       None \<Rightarrow> w1
                     | Some (total_size, progressHandler) \<Rightarrow>
                         foldl (\<lambda>v e. progressHandler e v) w1
                           (map snd (deliveries total_size (body_events response) initial_state)))
           in case ending response of
                Abort message \<Rightarrow> (Inl (Error message), w2)
              | End t \<Rightarrow>
                  (case store (root w2) outputPath (payload response) of
                     None \<Rightarrow> (Inl (Error (''EIO: write error, '' @ show_path outputPath)), w2)
                   | Some r' \<Rightarrow> (Inr (), w2\<lparr>root := r'\<rparr>))))"

subsection \<open>downloadFileWithProgressTrackerAsync\<close>

definition downloadFileWithProgressTrackerAsync ::
  "env \<Rightarrow> string \<Rightarrow> path \<Rightarrow> string \<Rightarrow> string \<Rightarrow> world \<Rightarrow> (error + unit) \<times> world" where
  "downloadFileWithProgressTrackerAsync env url outputPath progressTrackerMessage
       progressTrackerCompletedMessage w =
     (let attempt =
        (case wrapFetchWithProgress env url (1000 * 60 * 5)
                (createProgressTracker progressTrackerMessage progressTrackerCompletedMessage)
                (Log_newLine w) of
           (Inl e, w1) \<Rightarrow> (Inl e, w1)
         | (Inr (response, attached), w1) \<Rightarrow>
             if \<not> ok response then (Inl (Error (''Failed to download file from '' @ url)), w1)
             else pipeline response attached outputPath w1)
      in case attempt of
           (Inr u, w2) \<Rightarrow> (Inr u, w2)
         | (Inl e, w2) \<Rightarrow>
             (Inl e, if fs_pathExists outputPath w2 then fs_remove outputPath w2 else w2))"

subsection \<open>getAppPathAsync and tarExtractAsync\<close>

definition getAppPathAsync :: "path \<Rightarrow> string \<Rightarrow> world \<Rightarrow> (error + path) \<times> world" where
  "getAppPathAsync outputDir applicationExtension w =
     (let appFilePaths = glob (''./**/*.'' @ applicationExtension) outputDir w in
      if length appFilePaths = 0 then
        (Inl (Error ''Did not find any installable apps inside tarball.''), w)
      else if length appFilePaths = 1 then
        (Inr (path_join outputDir (appFilePaths ! 0)), w)
      else
        (Inl (InternalError ''MULTIPLE_APPS_IN_TARBALL'' ''Multiple apps detected in the tarball.''
               (map (\<lambda>filePath. \<lparr>name = filePath, path = path_join outputDir filePath\<rparr>)
                  appFilePaths)),
         Log_newLine (Log_log ''Detected multiple apps in the tarball:'' (Log_newLine w))))"

text \<open>The message of an error object, \<open>error.message\<close>.\<close>

fun message_of :: "error \<Rightarrow> string" where
  "message_of (Error m) = m"
| "message_of (InternalError c m d) = m"

definition tarExtractAsync :: "env \<Rightarrow> path \<Rightarrow> path \<Rightarrow> world \<Rightarrow> (error + unit) \<times> world" where
  "tarExtractAsync env input output w =
     (let fallback = (\<lambda>v. tar_extract env input output
            (Log_debug (''Extracting '' @ show_path input @ '' to '' @ show_path output
                        @ '' using JS tar module'') v))
      in if platform env \<noteq> ''win32'' then
           (case spawnAsync env ''tar'' [Flag ''-xf'', PathArg input, Flag ''-C'', PathArg output] w of
              (Inr u, w1) \<Rightarrow> (Inr (), w1)
            | (Inl e, w1) \<Rightarrow>
                fallback (Log_warn (''Failed to extract tar using native tools, falling back on JS tar module. '' @ message_of e) w1))
         else fallback w)"

subsection \<open>downloadAndMaybeExtractAppAsync and extractAppFromLocalArchiveAsync\<close>

text \<open>
  Modelled from the spec: \<^verbatim>\<open>./paths\<close> is not among the sources; the directory
  \<open>getTmpDirectory()\<close> returns is the parameter \<open>tmpDirectory\<close>.
\<close>

definition downloadsCacheDirectory :: "env \<Rightarrow> world \<Rightarrow> (error + path) \<times> world" where
  "downloadsCacheDirectory env w =
     (let dir = path_join (tmpDirectory env) [''downloads-cache''] in
      case fs_mkdir dir w of
        (Inl e, w1) \<Rightarrow> (Inl e, w1)
      | (Inr u, w1) \<Rightarrow> (Inr dir, w1))"

text \<open>
  Lines 128 to 137 of \<open>downloadAndMaybeExtractAppAsync\<close>, the look into the cache:
  \<open>Some (Inr appPath)\<close> when it returns the cached path, \<open>Some (Inl error)\<close> when it
  throws, \<open>None\<close> when control goes on to line 139.
\<close>

definition cachedAppPath :: "path \<Rightarrow> world \<Rightarrow> (error + path) option \<times> world" where
  "cachedAppPath outputDir w =
     (if fs_pathExists outputDir w then
        (case getAppPathAsync outputDir ''(apk|app|ipa)'' w of
           (Inr appPath, w1) \<Rightarrow> (Some (Inr appPath), w1)
         | (Inl (InternalError c m d), w1) \<Rightarrow> (Some (Inl (InternalError c m d)), w1)
         | (Inl (Error m), w1) \<Rightarrow> (None, w1))
      else (None, w))"

text \<open>Lines 139 to 168 of \<open>downloadAndMaybeExtractAppAsync\<close>, the fresh download.\<close>

definition freshDownload :: "env \<Rightarrow> string \<Rightarrow> path \<Rightarrow> world \<Rightarrow> (error + path) \<times> world" where
  "freshDownload env url outputDir w =
     (case fs_mkdir outputDir w of
        (Inl e, w1) \<Rightarrow> (Inl e, w1)
      | (Inr u, w1) \<Rightarrow>
          if endsWith url ''apk'' then
            (case uuidv4 env w1 of
               (uuid, w2) \<Rightarrow>
                 (let apkFilePath = path_join outputDir [uuid @ ''.apk''] in
                  case downloadFileWithProgressTrackerAsync env url apkFilePath
                         ''Downloading app'' ''Successfully downloaded app'' w2 of
                    (Inl e, w3) \<Rightarrow> (Inl e, w3)
                  | (Inr v, w3) \<Rightarrow> (Inr apkFilePath, w3)))
          else
            (case uuidv4 env w1 of
               (uuid1, w2) \<Rightarrow>
                 (let tmpArchivePathDir = path_join (tmpDirectory env) [uuid1] in
                  case fs_mkdir tmpArchivePathDir w2 of
                    (Inl e, w3) \<Rightarrow> (Inl e, w3)
                  | (Inr v, w3) \<Rightarrow>
                      (case uuidv4 env w3 of
                         (uuid2, w4) \<Rightarrow>
                           (let tmpArchivePath = path_join tmpArchivePathDir [uuid2 @ ''.tar.gz''] in
                            case downloadFileWithProgressTrackerAsync env url tmpArchivePath
                                   ''Downloading app archive''
                                   ''Successfully downloaded app archive'' w4 of
                              (Inl e, w5) \<Rightarrow> (Inl e, w5)
                            | (Inr v1, w5) \<Rightarrow>
                                (case tarExtractAsync env tmpArchivePath outputDir w5 of
                                   (Inl e, w6) \<Rightarrow> (Inl e, w6)
                                 | (Inr v2, w6) \<Rightarrow>
                                     getAppPathAsync outputDir ''(apk|app|ipa)'' w6))))))"

definition downloadAndMaybeExtractAppAsync :: "env \<Rightarrow> string \<Rightarrow> world \<Rightarrow> (error + path) \<times> world" where
  "downloadAndMaybeExtractAppAsync env url w =
     (let name = encodeURIComponent (strip_scheme url) in
      case downloadsCacheDirectory env w of
        (Inl e, w0) \<Rightarrow> (Inl e, w0)
      | (Inr cacheDir, w0) \<Rightarrow>
          (let outputDir = path_join cacheDir [name] in
           case cachedAppPath outputDir w0 of
             (Some (Inr appPath), w1) \<Rightarrow> (Inr appPath, w1)
           | (Some (Inl error), w1) \<Rightarrow> (Inl error, w1)
           | (None, w1) \<Rightarrow> freshDownload env url outputDir w1))"

definition extractAppFromLocalArchiveAsync :: "env \<Rightarrow> path \<Rightarrow> world \<Rightarrow> (error + path) \<times> world" where
  "extractAppFromLocalArchiveAsync env appArchivePath w =
     (case uuidv4 env w of
        (uuid, w1) \<Rightarrow>
          (let outputDir = path_join (tmpDirectory env) [uuid] in
           case fs_mkdir outputDir w1 of
             (Inl e, w2) \<Rightarrow> (Inl e, w2)
           | (Inr u, w2) \<Rightarrow>
               (case tarExtractAsync env appArchivePath outputDir w2 of
                  (Inl e, w3) \<Rightarrow> (Inl e, w3)
                | (Inr v, w3) \<Rightarrow> getAppPathAsync outputDir ''(apk|app|ipa)'' w3)))"

subsection \<open>Auxiliary notions\<close>

text \<open>
  A path names a directory of the tree; a component is an ordinary name, and so is
  every component of a path.
\<close>

definition is_dir :: "node \<Rightarrow> path \<Rightarrow> bool" where
  "is_dir r p = (case lookup r p of Some (Dir es) \<Rightarrow> True | _ \<Rightarrow> False)"

definition proper :: "string \<Rightarrow> bool" where
  "proper s = (s \<noteq> [] \<and> s \<noteq> ''.'' \<and> s \<noteq> ''..'')"

definition clean :: "path \<Rightarrow> bool" where
  "clean p = list_all (\<lambda>s. s \<noteq> [] \<and> s \<noteq> ''.'' \<and> s \<noteq> ''..'') p"

text \<open>
  The tree has the node \<open>new\<close> at a path, or a directory; and a member of an archive
  is in place below \<open>out\<close>: writing it would change nothing.
\<close>

definition has :: "node \<Rightarrow> path \<Rightarrow> node \<Rightarrow> bool" where
  "has r q new =
     (case lookup r q of
        None \<Rightarrow> False
      | Some (Dir es) \<Rightarrow> True
      | Some (File c) \<Rightarrow> new = File c)"

definition in_place :: "path \<Rightarrow> node \<Rightarrow> member \<Rightarrow> bool" where
  "in_place out r m =
     (let p = filter (\<lambda>s. s \<noteq> [] \<and> s \<noteq> ''.'') (member_path m)
      in p = [] \<or> ''..'' \<in> set p \<or> has r (out @ p) (member_node m))"


subsection \<open>Examples\<close>

text \<open>
  A tree with three output directories: one with no match (a hidden package does not
  count), one with a single application directory, one with two packages.
\<close>

definition example_tree :: node where
  "example_tree =
     Dir [(''none'', Dir [(''readme.txt'', File Opaque), (''.hidden.apk'', File Opaque)]),
          (''one'', Dir [(''payload'', Dir [(''MyApp.app'', Dir [(''Info.plist'', File Opaque)])])]),
          (''two'', Dir [(''a.apk'', File Opaque), (''b.ipa'', File Opaque)])]"

definition example_world :: world where
  "example_world = \<lparr>root = example_tree, requests = [], spawned = [], extracted = [], logs = [],
     sink = [], uuid_count = 0\<rparr>"


text \<open>
  A server with two packages (the URL of one ends in \<open>apk\<close> without a dot) and an
  archive, a package whose Content-Length is negative, and a package whose transfer
  times out. \<open>decimal\<close> stands for \<open>Number\<close> on the
  headers used here. In \<open>fresh_world\<close> only the temporary directory exists.
\<close>

definition decimal :: "string \<Rightarrow> jsnum" where
  "decimal s =
     (if s \<noteq> [] \<and> list_all (\<lambda>c. c \<in> set ''0123456789'') s
      then Fin (of_nat (foldl (\<lambda>a c. 10 * a + (of_char c - 48)) 0 s))
      else if s = ''-5'' then Fin (- 5) else NaN)"

definition example_server :: "string \<Rightarrow> string + response" where
  "example_server url =
     (if url = ''https://h/a.apk'' \<or> url = ''https://h/myapk'' then
        Inr \<lparr>ok = True, content_length = Some ''10'', chunks = [(4, 1000), (6, 1100)],
             ending = End 1200, payload = Opaque\<rparr>
      else if url = ''https://h/b.tar.gz'' then
        Inr \<lparr>ok = True, content_length = Some ''10'', chunks = [(4, 1000), (6, 1100)],
             ending = End 1200,
             payload = Archive [MDir [''payload''], MFile [''payload'', ''MyApp.app'']]\<rparr>
      else if url = ''https://h/nolength.apk'' then
        Inr \<lparr>ok = True, content_length = Some ''-5'', chunks = [(4, 1000), (6, 1300)],
             ending = End 1400, payload = Opaque\<rparr>
      else if url = ''https://h/slow.apk'' then
        Inr \<lparr>ok = True, content_length = Some ''10'', chunks = [(4, 1000)],
             ending = Abort ''network timeout'', payload = Opaque\<rparr>
      else Inl ''getaddrinfo ENOTFOUND'')"

text \<open>
  Two extractors that read the members from the archive file. Both leave out the
  members with a \<open>..\<close> component; the strict one then ends with an error, as the
  \<open>tar\<close> of most platforms does, the lenient one does not. \<open>no_tar\<close> is a platform
  without the tool.
\<close>

definition escapes :: "member \<Rightarrow> bool" where
  "escapes m = (''..'' \<in> set (member_path m))"

definition strict_tar :: "path \<Rightarrow> path \<Rightarrow> node \<Rightarrow> member list \<times> string option" where
  "strict_tar input output r =
     (case lookup r input of
        Some (File (Archive ms)) \<Rightarrow>
          (if is_dir r output then
             (filter (\<lambda>m. \<not> escapes m) ms,
              if list_ex escapes ms
              then Some ''tar exited with non-zero code: 2''
              else None)
           else ([], Some ''tar exited with non-zero code: 2''))
      | _ \<Rightarrow> ([], Some ''tar exited with non-zero code: 2''))"

definition lenient_tar :: "path \<Rightarrow> path \<Rightarrow> node \<Rightarrow> member list \<times> string option" where
  "lenient_tar input output r =
     (case lookup r input of
        Some (File (Archive ms)) \<Rightarrow>
          (if is_dir r output then (filter (\<lambda>m. \<not> escapes m) ms, None)
           else ([], Some ''ENOTDIR: Cannot cd into the output directory''))
      | _ \<Rightarrow> ([], Some ''TAR_BAD_ARCHIVE: Unrecognized archive format''))"

definition no_tar :: "path \<Rightarrow> path \<Rightarrow> node \<Rightarrow> member list \<times> string option" where
  "no_tar input output r = ([], Some ''spawn tar ENOENT'')"

definition example_env :: env where
  "example_env = \<lparr>platform = ''darwin'', tmpDirectory = [''tmp''], Number = decimal,
     server = example_server, tar_process = strict_tar, tar_module = lenient_tar,
     entropy = (\<lambda>n. n)\<rparr>"

definition fresh_world :: world where
  "fresh_world = \<lparr>root = Dir [(''tmp'', Dir [])], requests = [], spawned = [], extracted = [], logs = [],
     sink = [], uuid_count = 0\<rparr>"


text \<open>
  Three more worlds: a cache directory with two packages, a cache directory without
  a bundle, and a downloaded archive beside an empty output directory; the last
  member of that archive points out of the output directory.
\<close>

definition ambiguous_world :: world where
  "ambiguous_world =
     \<lparr>root = Dir [(''tmp'', Dir [(''downloads-cache'',
               Dir [(''h%2Fb.tar.gz'', Dir [(''a.apk'', File Opaque), (''b.ipa'', File Opaque)])])])],
      requests = [], spawned = [], extracted = [], logs = [], sink = [], uuid_count = 0\<rparr>"

definition corrupt_world :: world where
  "corrupt_world =
     \<lparr>root = Dir [(''tmp'', Dir [(''downloads-cache'',
               Dir [(''h%2Fb.tar.gz'', Dir [(''readme.txt'', File Opaque)])])])],
      requests = [], spawned = [], extracted = [], logs = [], sink = [], uuid_count = 0\<rparr>"

definition archive_world :: world where
  "archive_world =
     \<lparr>root = Dir [(''tmp'', Dir [(''a.tar.gz'',
                 File (Archive [MDir [''payload''], MFile [''payload'', ''MyApp.app''],
                                MFile [''..'', ''evil.apk'']])),
               (''out'', Dir [])])],
      requests = [], spawned = [], extracted = [], logs = [], sink = [], uuid_count = 0\<rparr>"

section \<open>Properties\<close>

subsection \<open>The bundle locator\<close>

text \<open>
  Claim C1. \<open>getAppPathAsync\<close> follows the number of entries below the output
  directory that match the pattern: with none it fails with the plain error "Did not
  find any installable apps inside tarball."; with exactly one it returns that entry
  joined to the output directory; with two or more it fails with the InternalError
  \<open>MULTIPLE_APPS_IN_TARBALL\<close>, whose details list one \<open>{name, path}\<close> entry per match,
  in the order of the matches, so that its length is the number of matches.
\<close>

theorem getAppPathAsync_trichotomy:
  "(glob (''./**/*.'' @ ext) outputDir w = [] \<longrightarrow>
      getAppPathAsync outputDir ext w
        = (Inl (Error ''Did not find any installable apps inside tarball.''), w))
   \<and> (\<forall>m. glob (''./**/*.'' @ ext) outputDir w = [m] \<longrightarrow>
          getAppPathAsync outputDir ext w = (Inr (path_join outputDir m), w))
   \<and> (2 \<le> length (glob (''./**/*.'' @ ext) outputDir w) \<longrightarrow>
        (\<exists>apps. fst (getAppPathAsync outputDir ext w)
                  = Inl (InternalError ''MULTIPLE_APPS_IN_TARBALL''
                           ''Multiple apps detected in the tarball.'' apps)
           \<and> length apps = length (glob (''./**/*.'' @ ext) outputDir w)
           \<and> apps = map (\<lambda>filePath. \<lparr>name = filePath, path = path_join outputDir filePath\<rparr>)
                        (glob (''./**/*.'' @ ext) outputDir w)))"
  by (simp add: getAppPathAsync_def Let_def)

lemma pattern_extensions_app:
  "pattern_extensions ''./**/*.(apk|app|ipa)'' = Some [''apk'', ''app'', ''ipa'']"
  by (simp add: pattern_extensions_def)

lemma glob_example_none: "glob ''./**/*.(apk|app|ipa)'' [''none''] example_world = []"
  by (simp add: glob_def example_world_def example_tree_def glob_match_def endsWith_def
      pattern_extensions_app)

lemma glob_example_one:
  "glob ''./**/*.(apk|app|ipa)'' [''one''] example_world = [[''payload'', ''MyApp.app'']]"
  by (simp add: glob_def example_world_def example_tree_def glob_match_def endsWith_def
      pattern_extensions_app)

lemma glob_example_two:
  "glob ''./**/*.(apk|app|ipa)'' [''two''] example_world = [[''a.apk''], [''b.ipa'']]"
  by (simp add: glob_def example_world_def example_tree_def glob_match_def endsWith_def
      pattern_extensions_app)

theorem getAppPathAsync_trichotomy_witness:
  "getAppPathAsync [''none''] ''(apk|app|ipa)'' example_world
     = (Inl (Error ''Did not find any installable apps inside tarball.''), example_world)
   \<and> getAppPathAsync [''one''] ''(apk|app|ipa)'' example_world
     = (Inr [''one'', ''payload'', ''MyApp.app''], example_world)
   \<and> fst (getAppPathAsync [''two''] ''(apk|app|ipa)'' example_world)
     = Inl (InternalError ''MULTIPLE_APPS_IN_TARBALL'' ''Multiple apps detected in the tarball.''
         [\<lparr>name = [''a.apk''], path = [''two'', ''a.apk'']\<rparr>,
          \<lparr>name = [''b.ipa''], path = [''two'', ''b.ipa'']\<rparr>])"
  using getAppPathAsync_trichotomy [of "''(apk|app|ipa)''" "[''none'']" example_world]
        getAppPathAsync_trichotomy [of "''(apk|app|ipa)''" "[''one'']" example_world]
        getAppPathAsync_trichotomy [of "''(apk|app|ipa)''" "[''two'']" example_world]
  by (simp add: glob_example_none glob_example_one glob_example_two path_join_def normalize_def)


subsection \<open>The name of the cache directory\<close>

lemma hex_upper_inj:
  assumes "a < 16" "b < 16" "hex_upper a = hex_upper b"
  shows "a = b"
proof -
  have cases16: "\<And>n::nat. n < 16 \<Longrightarrow> n \<in> {0,1,2,3,4,5,6,7,8,9,10,11,12,13,14,15}"
    by (simp only: insert_iff empty_iff) arith
  from cases16[OF assms(1)] cases16[OF assms(2)] assms(3) show ?thesis
    by (auto simp: hex_upper_def)
qed

lemma percent_escape_inj:
  assumes "percent_escape c = percent_escape d"
  shows "c = d"
proof -
  let ?m = "of_char c :: nat" and ?n = "of_char d :: nat"
  have lt: "?m div 16 < 16" "?n div 16 < 16"
  proof -
    have "?m mod 256 < 256" "?n mod 256 < 256" by simp_all
    then have "?m < 256" "?n < 256" by (simp_all only: of_char_mod_256)
    then show "?m div 16 < 16" "?n div 16 < 16" by arith+
  qed
  have "hex_upper (?m div 16) = hex_upper (?n div 16)" "hex_upper (?m mod 16) = hex_upper (?n mod 16)"
    using assms by (simp_all add: percent_escape_def)
  then have "?m div 16 = ?n div 16" "?m mod 16 = ?n mod 16"
    using lt hex_upper_inj by auto
  then have "?m = ?n"
    by (metis div_mult_mod_eq)
  then show ?thesis
    by (metis char_of_char)
qed

lemma unreserved_not_percent: "unreserved c \<Longrightarrow> c \<noteq> CHR ''%''"
  by (auto simp: unreserved_def)

lemma encodeURIComponent_inj:
  "encodeURIComponent s = encodeURIComponent t \<Longrightarrow> s = t"
proof (induction s arbitrary: t)
  case Nil
  then show ?case
    by (cases t) (auto simp: encodeURIComponent_def percent_escape_def split: if_splits)
next
  case (Cons c s)
  show ?case
  proof (cases t)
    case Nil
    with Cons.prems show ?thesis
      by (auto simp: encodeURIComponent_def percent_escape_def split: if_splits)
  next
    case (Cons d t')
    have eq: "(if unreserved c then [c] else percent_escape c) @ encodeURIComponent s
              = (if unreserved d then [d] else percent_escape d) @ encodeURIComponent t'"
      using Cons.prems Cons by (simp add: encodeURIComponent_def)
    have "c = d \<and> encodeURIComponent s = encodeURIComponent t'"
    proof (cases "unreserved c"; cases "unreserved d")
      assume "unreserved c" "unreserved d"
      with eq show ?thesis by simp
    next
      assume "unreserved c" "\<not> unreserved d"
      with eq unreserved_not_percent[of c] show ?thesis by (simp add: percent_escape_def)
    next
      assume "\<not> unreserved c" "unreserved d"
      with eq unreserved_not_percent[of d] show ?thesis by (auto simp add: percent_escape_def)
    next
      assume nc: "\<not> unreserved c" and nd: "\<not> unreserved d"
      with eq have "percent_escape c @ encodeURIComponent s = percent_escape d @ encodeURIComponent t'"
        by simp
      moreover have "length (percent_escape c) = length (percent_escape d)"
        by (simp add: percent_escape_def)
      ultimately have "percent_escape c = percent_escape d \<and> encodeURIComponent s = encodeURIComponent t'"
        by simp
      then show ?thesis using percent_escape_inj by blast
    qed
    with Cons.IH Cons show ?thesis by blast
  qed
qed


text \<open>
  Claim C9, as stated, fails: the name of the cache directory is a function of the URL
  (the same URL always gives the same name), but two URLs that differ only in their
  scheme get the same name, because the scheme is stripped before encoding.
\<close>

theorem cache_name_collision:
  "''http://h/a.apk'' \<noteq> ''https://h/a.apk''
   \<and> encodeURIComponent (strip_scheme ''http://h/a.apk'')
       = encodeURIComponent (strip_scheme ''https://h/a.apk'')"
  by (simp add: strip_scheme_def)


text \<open>
  Claim C9, amended. The name \<open>encodeURIComponent(url.replace(/^[^:]+:\/\//, ''))\<close>
  is determined by the URL, and two URLs get the same name exactly when they are equal
  after the scheme prefix is stripped: percent-encoding itself never maps two strings
  to one.
\<close>

theorem cache_name_eq_iff:
  "(encodeURIComponent (strip_scheme url1) = encodeURIComponent (strip_scheme url2))
    = (strip_scheme url1 = strip_scheme url2)"
  using encodeURIComponent_inj by auto


subsection \<open>The progress events\<close>

lemma onProgress_finished:
  "didProgressBarFinish st \<Longrightarrow> onProgress total_size c t st = (st', out)
     \<Longrightarrow> out = None \<and> didProgressBarFinish st'"
  by (auto simp: onProgress_def Let_def)

lemma on_event_finished:
  "didProgressBarFinish st \<Longrightarrow> on_event total_size ev st = (st', out)
     \<Longrightarrow> out = None \<and> didProgressBarFinish st'"
  by (cases ev) (auto dest: onProgress_finished)

lemma deliveries_finished:
  "didProgressBarFinish st \<Longrightarrow> deliveries total_size evs st = []"
proof (induction evs arbitrary: st)
  case Nil
  then show ?case by simp
next
  case (Cons ev evs)
  obtain st' out where step: "on_event total_size ev st = (st', out)"
    by (cases "on_event total_size ev st")
  with Cons.prems on_event_finished have "out = None" "didProgressBarFinish st'"
    by blast+
  with step Cons.IH show ?case by simp
qed

lemma onProgress_silent:
  "onProgress total_size c t st = (st', None)
     \<Longrightarrow> lastProgressCallTime st' = lastProgressCallTime st
         \<and> didProgressBarFinish st' = didProgressBarFinish st
         \<and> length_bytes st \<le> length_bytes st'"
  by (auto simp: onProgress_def Let_def split: if_splits option.splits)

lemma onProgress_delivers:
  "onProgress total_size c t st = (st', Some e)
     \<Longrightarrow> lastProgressCallTime st' = t
         \<and> didProgressBarFinish st' = isComplete e
         \<and> \<not> didProgressBarFinish st
         \<and> (isComplete e \<or> 250 \<le> t - lastProgressCallTime st)
         \<and> isComplete e = (total_size = Fin (of_nat (transferred (progress e))))
         \<and> total (progress e) = total_size
         \<and> transferred (progress e) = length_bytes st'
         \<and> length_bytes st \<le> length_bytes st'"
  by (auto simp: onProgress_def Let_def split: if_splits option.splits)

lemma on_event_silent:
  "on_event total_size ev st = (st', None)
     \<Longrightarrow> lastProgressCallTime st' = lastProgressCallTime st
         \<and> didProgressBarFinish st' = didProgressBarFinish st
         \<and> length_bytes st \<le> length_bytes st'"
  by (cases ev) (auto dest: onProgress_silent)

lemma on_event_delivers:
  "on_event total_size ev st = (st', Some e)
     \<Longrightarrow> lastProgressCallTime st' = event_time ev
         \<and> didProgressBarFinish st' = isComplete e
         \<and> \<not> didProgressBarFinish st
         \<and> (isComplete e \<or> 250 \<le> event_time ev - lastProgressCallTime st)
         \<and> isComplete e = (total_size = Fin (of_nat (transferred (progress e))))
         \<and> total (progress e) = total_size
         \<and> transferred (progress e) = length_bytes st'
         \<and> length_bytes st \<le> length_bytes st'"
  by (cases ev) (auto dest: onProgress_delivers)

lemma deliveries_after_last:
  "(t, e) \<in> set (deliveries total_size evs st) \<Longrightarrow> \<not> isComplete e
     \<Longrightarrow> 250 \<le> t - lastProgressCallTime st"
proof (induction evs arbitrary: st)
  case Nil
  then show ?case by simp
next
  case (Cons ev evs)
  obtain st' out where step: "on_event total_size ev st = (st', out)"
    by (cases "on_event total_size ev st")
  show ?case
  proof (cases out)
    case None
    with step Cons.prems have "(t, e) \<in> set (deliveries total_size evs st')" by simp
    with Cons.IH Cons.prems(2) have "250 \<le> t - lastProgressCallTime st'" by blast
    with on_event_silent[OF step[unfolded None]] show ?thesis by simp
  next
    case (Some e0)
    note d = on_event_delivers[OF step[unfolded Some]]
    from step Some Cons.prems(1)
    consider "(t, e) = (event_time ev, e0)" | "(t, e) \<in> set (deliveries total_size evs st')"
      by auto
    then show ?thesis
    proof cases
      case 1
      with d Cons.prems(2) show ?thesis by auto
    next
      case 2
      have unfinished: "\<not> isComplete e0"
        using 2 d deliveries_finished[of st' total_size evs] by auto
      from Cons.IH[OF 2 Cons.prems(2)] have "250 \<le> t - lastProgressCallTime st'" .
      with d unfinished show ?thesis by auto
    qed
  qed
qed

lemma deliveries_spaced:
  "sorted_wrt (\<lambda>a b. \<not> isComplete (snd b) \<longrightarrow> 250 \<le> fst b - fst a)
     (deliveries total_size evs st)"
proof (induction evs arbitrary: st)
  case Nil
  then show ?case by simp
next
  case (Cons ev evs)
  obtain st' out where step: "on_event total_size ev st = (st', out)"
    by (cases "on_event total_size ev st")
  show ?case
  proof (cases out)
    case None
    with step Cons.IH show ?thesis by simp
  next
    case (Some e0)
    note d = on_event_delivers[OF step[unfolded Some]]
    have "\<forall>b \<in> set (deliveries total_size evs st'). \<not> isComplete (snd b) \<longrightarrow> 250 \<le> fst b - event_time ev"
      using deliveries_after_last[of _ _ total_size evs st'] d by auto
    with step Some Cons.IH[of st'] show ?thesis by simp
  qed
qed


text \<open>
  Claim C5. Whatever the total and whatever the stream events, between two calls of
  the progress sink the clock, read at the calls, advanced by at least 250 ms, unless
  the later call is the final one; so no two non-final events are less than 250 ms
  apart. The final call always fires: as long as no completion was reported, an event
  that brings the byte count to the total is delivered with \<open>isComplete\<close>, whatever
  the time of the previous call.
\<close>

theorem progress_throttled:
  "(\<forall>i j. i < j \<and> j < length (deliveries total_size evs initial_state)
          \<and> \<not> isComplete (snd (deliveries total_size evs initial_state ! j))
        \<longrightarrow> 250 \<le> fst (deliveries total_size evs initial_state ! j)
                   - fst (deliveries total_size evs initial_state ! i))
   \<and> (\<forall>(st::progress_state) ev.
          \<not> didProgressBarFinish st \<and> total_size = Fin (of_nat (length_bytes st + event_bytes ev))
        \<longrightarrow> (\<exists>st' e. on_event total_size ev st = (st', Some e) \<and> isComplete e
                      \<and> transferred (progress e) = length_bytes st + event_bytes ev))"
proof (intro conjI allI impI)
  fix i j
  assume "i < j \<and> j < length (deliveries total_size evs initial_state)
          \<and> \<not> isComplete (snd (deliveries total_size evs initial_state ! j))"
  with deliveries_spaced[of total_size evs initial_state]
  show "250 \<le> fst (deliveries total_size evs initial_state ! j)
                   - fst (deliveries total_size evs initial_state ! i)"
    by (auto simp: sorted_wrt_iff_nth_less)
next
  fix st :: progress_state and ev :: body_event
  assume "\<not> didProgressBarFinish st \<and> total_size = Fin (of_nat (length_bytes st + event_bytes ev))"
  then show "\<exists>st' e. on_event total_size ev st = (st', Some e) \<and> isComplete e
                      \<and> transferred (progress e) = length_bytes st + event_bytes ev"
    by (cases ev) (simp_all add: onProgress_def Let_def)
qed

theorem progress_throttled_witness:
  "deliveries (Fin 10) [Data 2 1000, Data 2 1100, Data 2 1300, Data 4 1310, EndOfStream 1320]
       initial_state
     = [(1000, \<lparr>progress = \<lparr>total = Fin 10, percent = Fin (1 / 5), transferred = 2\<rparr>,
                 isComplete = False\<rparr>),
        (1300, \<lparr>progress = \<lparr>total = Fin 10, percent = Fin (3 / 5), transferred = 6\<rparr>,
                 isComplete = False\<rparr>),
        (1310, \<lparr>progress = \<lparr>total = Fin 10, percent = Fin 1, transferred = 10\<rparr>,
                 isComplete = True\<rparr>)]
   \<and> (250::int) \<le> fst (deliveries (Fin 10)
           [Data 2 1000, Data 2 1100, Data 2 1300, Data 4 1310, EndOfStream 1320] initial_state ! 1)
         - fst (deliveries (Fin 10)
           [Data 2 1000, Data 2 1100, Data 2 1300, Data 4 1310, EndOfStream 1320] initial_state ! 0)
   \<and> (\<exists>st' e. on_event (Fin 10) (Data 4 1310)
            \<lparr>didProgressBarFinish = False, lastProgressCallTime = 1300, length_bytes = 6\<rparr>
            = (st', Some e) \<and> isComplete e
             \<and> transferred (progress e)
                 = length_bytes \<lparr>didProgressBarFinish = False, lastProgressCallTime = 1300,
                     length_bytes = 6\<rparr> + event_bytes (Data 4 1310))"
proof -
  let ?evs = "[Data 2 1000, Data 2 1100, Data 2 1300, Data 4 1310, EndOfStream 1320]"
  let ?st = "\<lparr>didProgressBarFinish = False, lastProgressCallTime = 1300, length_bytes = 6\<rparr>"
  have ds: "deliveries (Fin 10) ?evs initial_state
     = [(1000, \<lparr>progress = \<lparr>total = Fin 10, percent = Fin (1 / 5), transferred = 2\<rparr>,
                 isComplete = False\<rparr>),
        (1300, \<lparr>progress = \<lparr>total = Fin 10, percent = Fin (3 / 5), transferred = 6\<rparr>,
                 isComplete = False\<rparr>),
        (1310, \<lparr>progress = \<lparr>total = Fin 10, percent = Fin 1, transferred = 10\<rparr>,
                 isComplete = True\<rparr>)]"
    by (simp add: onProgress_def initial_state_def Let_def js_div_def)
  have h1: "(0::nat) < 1 \<and> 1 < length (deliveries (Fin 10) ?evs initial_state)
          \<and> \<not> isComplete (snd (deliveries (Fin 10) ?evs initial_state ! 1))"
    unfolding ds by simp
  have h2: "\<not> didProgressBarFinish ?st
            \<and> Fin 10 = Fin (of_nat (length_bytes ?st + event_bytes (Data 4 1310)))"
    by simp
  note inst = progress_throttled[of "Fin 10" ?evs]
  from inst[THEN conjunct1, rule_format, of 0 1] h1
  have spaced: "250 \<le> fst (deliveries (Fin 10) ?evs initial_state ! 1)
                    - fst (deliveries (Fin 10) ?evs initial_state ! 0)"
    by simp
  have final: "\<exists>st' e. on_event (Fin 10) (Data 4 1310) ?st = (st', Some e) \<and> isComplete e
                 \<and> transferred (progress e) = length_bytes ?st + event_bytes (Data 4 1310)"
    by (rule inst[THEN conjunct2, rule_format, OF h2])
  show ?thesis
    by (rule conjI[OF ds conjI[OF spaced final]])
qed


lemma deliveries_at_least:
  "(t, e) \<in> set (deliveries total_size evs st) \<Longrightarrow> length_bytes st \<le> transferred (progress e)"
proof (induction evs arbitrary: st)
  case Nil
  then show ?case by simp
next
  case (Cons ev evs)
  obtain st' out where step: "on_event total_size ev st = (st', out)"
    by (cases "on_event total_size ev st")
  show ?case
  proof (cases out)
    case None
    with step Cons.prems have "(t, e) \<in> set (deliveries total_size evs st')" by simp
    with Cons.IH have "length_bytes st' \<le> transferred (progress e)" by blast
    with on_event_silent[OF step[unfolded None]] show ?thesis by simp
  next
    case (Some e0)
    note d = on_event_delivers[OF step[unfolded Some]]
    from step Some Cons.prems
    consider "(t, e) = (event_time ev, e0)" | "(t, e) \<in> set (deliveries total_size evs st')"
      by auto
    then show ?thesis
    proof cases
      case 1
      with d show ?thesis by auto
    next
      case 2
      from Cons.IH[OF 2] d show ?thesis by simp
    qed
  qed
qed

lemma deliveries_monotone:
  "sorted_wrt (\<lambda>a b. transferred (progress (snd a)) \<le> transferred (progress (snd b)))
     (deliveries total_size evs st)"
proof (induction evs arbitrary: st)
  case Nil
  then show ?case by simp
next
  case (Cons ev evs)
  obtain st' out where step: "on_event total_size ev st = (st', out)"
    by (cases "on_event total_size ev st")
  show ?case
  proof (cases out)
    case None
    with step Cons.IH show ?thesis by simp
  next
    case (Some e0)
    note d = on_event_delivers[OF step[unfolded Some]]
    have "\<forall>b \<in> set (deliveries total_size evs st').
            transferred (progress e0) \<le> transferred (progress (snd b))"
      using deliveries_at_least[of _ _ total_size evs st'] d by auto
    with step Some Cons.IH[of st'] show ?thesis by simp
  qed
qed

lemma deliveries_latch:
  "sorted_wrt (\<lambda>a b. \<not> isComplete (snd a)) (deliveries total_size evs st)"
proof (induction evs arbitrary: st)
  case Nil
  then show ?case by simp
next
  case (Cons ev evs)
  obtain st' out where step: "on_event total_size ev st = (st', out)"
    by (cases "on_event total_size ev st")
  show ?case
  proof (cases out)
    case None
    with step Cons.IH show ?thesis by simp
  next
    case (Some e0)
    note d = on_event_delivers[OF step[unfolded Some]]
    have "isComplete e0 \<Longrightarrow> deliveries total_size evs st' = []"
      using d deliveries_finished by simp
    then have "\<forall>b \<in> set (deliveries total_size evs st'). \<not> isComplete e0"
      by auto
    with step Some Cons.IH[of st'] show ?thesis by simp
  qed
qed

lemma deliveries_complete_iff:
  "(t, e) \<in> set (deliveries total_size evs st)
     \<Longrightarrow> isComplete e = (total_size = Fin (of_nat (transferred (progress e))))"
proof (induction evs arbitrary: st)
  case Nil
  then show ?case by simp
next
  case (Cons ev evs)
  obtain st' out where step: "on_event total_size ev st = (st', out)"
    by (cases "on_event total_size ev st")
  show ?case
  proof (cases out)
    case None
    with step Cons show ?thesis by simp
  next
    case (Some e0)
    note d = on_event_delivers[OF step[unfolded Some]]
    from step Some Cons.prems
    consider "(t, e) = (event_time ev, e0)" | "(t, e) \<in> set (deliveries total_size evs st')"
      by auto
    then show ?thesis
    proof cases
      case 1
      with d show ?thesis by auto
    next
      case 2
      from Cons.IH[OF 2] show ?thesis .
    qed
  qed
qed

lemma on_event_total:
  "\<exists>st' out. on_event total_size ev st = (st', out)
      \<and> length_bytes st' = length_bytes st + event_bytes ev"
  by (cases ev) (auto simp: onProgress_def Let_def)

lemma deliveries_exact_body:
  "\<not> didProgressBarFinish st
     \<Longrightarrow> total_size = Fin (of_nat (length_bytes st + sum_list (map fst cs)))
     \<Longrightarrow> deliveries total_size (map (\<lambda>(n, t). Data n t) cs @ [EndOfStream t']) st \<noteq> []
         \<and> isComplete (snd (last (deliveries total_size (map (\<lambda>(n, t). Data n t) cs @ [EndOfStream t']) st)))
         \<and> transferred (progress (snd (last (deliveries total_size
              (map (\<lambda>(n, t). Data n t) cs @ [EndOfStream t']) st))))
             = length_bytes st + sum_list (map fst cs)"
proof (induction cs arbitrary: st)
  case Nil
  then show ?case by (simp add: onProgress_def Let_def)
next
  case (Cons c cs)
  obtain n t where c: "c = (n, t)" by (cases c)
  let ?rest = "map (\<lambda>(n, t). Data n t) cs @ [EndOfStream t']"
  obtain st' out where step: "on_event total_size (Data n t) st = (st', out)"
    by (cases "on_event total_size (Data n t) st")
  have len: "length_bytes st' = length_bytes st + n"
    using on_event_total[of total_size "Data n t" st] step by simp
  show ?case
  proof (cases out)
    case None
    from on_event_silent[OF step[unfolded None]] Cons.prems(1)
    have "\<not> didProgressBarFinish st'" by simp
    moreover have "total_size = Fin (of_nat (length_bytes st' + sum_list (map fst cs)))"
      using Cons.prems(2) len c by (simp add: add.assoc)
    ultimately show ?thesis
      using Cons.IH[of st'] step None c len by (simp add: add.assoc)
  next
    case (Some e0)
    note d = on_event_delivers[OF step[unfolded Some]]
    show ?thesis
    proof (cases "isComplete e0")
      case True
      then have "deliveries total_size ?rest st' = []"
        using d deliveries_finished by simp
      moreover from True d have "total_size = Fin (of_nat (length_bytes st'))" by simp
      with Cons.prems(2) have "length_bytes st' = length_bytes st + sum_list (map fst (c # cs))"
        by simp
      ultimately show ?thesis
        using step Some c True d by simp
    next
      case False
      with d have "\<not> didProgressBarFinish st'" by simp
      moreover have "total_size = Fin (of_nat (length_bytes st' + sum_list (map fst cs)))"
        using Cons.prems(2) len c by (simp add: add.assoc)
      ultimately show ?thesis
        using Cons.IH[of st'] step Some c len by (simp add: add.assoc)
    qed
  qed
qed


text \<open>
  Claim C6, as stated, fails in its last part: the last event delivered need not be a
  completion. With a Content-Length of 10 and a body of 4 and 7 bytes (a body longer
  than announced, as a decompressed one is), the byte count passes the total without
  being equal to it, and all three events, the last one at the end of the stream,
  have \<open>isComplete = false\<close>.
\<close>

theorem progress_final_event_incomplete:
  "deliveries (Fin 10) [Data 4 300, Data 7 600, EndOfStream 900] initial_state \<noteq> []
   \<and> \<not> isComplete (snd (last (deliveries (Fin 10)
         [Data 4 300, Data 7 600, EndOfStream 900] initial_state)))
   \<and> transferred (progress (snd (last (deliveries (Fin 10)
         [Data 4 300, Data 7 600, EndOfStream 900] initial_state)))) = 11"
  by (simp add: onProgress_def initial_state_def Let_def)


text \<open>
  Claim C6, amended. For any stream of events: after the first event with
  \<open>isComplete = true\<close> the sink is not called again (the complete event is the last
  one); the values of \<open>transferred\<close> never decrease; an event is complete exactly when
  its \<open>transferred\<close> equals the total. When the body delivers exactly the announced
  number of bytes and then ends, there is a last event, it is complete and its
  \<open>transferred\<close> is the total.
\<close>

theorem progress_latch_monotone:
  "(\<forall>i. i < length (deliveries total_size evs initial_state)
         \<and> isComplete (snd (deliveries total_size evs initial_state ! i))
       \<longrightarrow> Suc i = length (deliveries total_size evs initial_state))
   \<and> (\<forall>i j. i \<le> j \<and> j < length (deliveries total_size evs initial_state)
       \<longrightarrow> transferred (progress (snd (deliveries total_size evs initial_state ! i)))
            \<le> transferred (progress (snd (deliveries total_size evs initial_state ! j))))
   \<and> (\<forall>i. i < length (deliveries total_size evs initial_state)
       \<longrightarrow> isComplete (snd (deliveries total_size evs initial_state ! i))
            = (total_size = Fin (of_nat (transferred (progress
                 (snd (deliveries total_size evs initial_state ! i)))))))
   \<and> (\<forall>cs t. evs = map (\<lambda>(n, t). Data n t) cs @ [EndOfStream t]
              \<and> total_size = Fin (of_nat (sum_list (map fst cs)))
       \<longrightarrow> deliveries total_size evs initial_state \<noteq> []
           \<and> isComplete (snd (last (deliveries total_size evs initial_state)))
           \<and> transferred (progress (snd (last (deliveries total_size evs initial_state))))
               = sum_list (map fst cs))"
proof (intro conjI allI impI)
  fix i
  assume a: "i < length (deliveries total_size evs initial_state)
         \<and> isComplete (snd (deliveries total_size evs initial_state ! i))"
  show "Suc i = length (deliveries total_size evs initial_state)"
  proof (rule ccontr)
    assume "Suc i \<noteq> length (deliveries total_size evs initial_state)"
    with a have "i < Suc i" "Suc i < length (deliveries total_size evs initial_state)" by auto
    with deliveries_latch[of total_size evs initial_state] a show False
      by (auto simp: sorted_wrt_iff_nth_less)
  qed
next
  fix i j
  assume a: "i \<le> j \<and> j < length (deliveries total_size evs initial_state)"
  show "transferred (progress (snd (deliveries total_size evs initial_state ! i)))
            \<le> transferred (progress (snd (deliveries total_size evs initial_state ! j)))"
  proof (cases "i = j")
    case True
    then show ?thesis by simp
  next
    case False
    with a have "i < j" by simp
    with a deliveries_monotone[of total_size evs initial_state] show ?thesis
      by (auto simp: sorted_wrt_iff_nth_less)
  qed
next
  fix i
  assume "i < length (deliveries total_size evs initial_state)"
  then have "deliveries total_size evs initial_state ! i \<in> set (deliveries total_size evs initial_state)"
    by simp
  then show "isComplete (snd (deliveries total_size evs initial_state ! i))
            = (total_size = Fin (of_nat (transferred (progress
                 (snd (deliveries total_size evs initial_state ! i))))))"
    using deliveries_complete_iff[of "fst (deliveries total_size evs initial_state ! i)"
            "snd (deliveries total_size evs initial_state ! i)" total_size evs initial_state]
    by simp
next
  fix cs t
  assume a: "evs = map (\<lambda>(n, t). Data n t) cs @ [EndOfStream t]
              \<and> total_size = Fin (of_nat (sum_list (map fst cs)))"
  then have "total_size = Fin (of_nat (length_bytes initial_state + sum_list (map fst cs)))"
    by (simp add: initial_state_def)
  moreover have "\<not> didProgressBarFinish initial_state"
    by (simp add: initial_state_def)
  ultimately have r: "deliveries total_size (map (\<lambda>(n, t). Data n t) cs @ [EndOfStream t]) initial_state \<noteq> []
         \<and> isComplete (snd (last (deliveries total_size (map (\<lambda>(n, t). Data n t) cs @ [EndOfStream t]) initial_state)))
         \<and> transferred (progress (snd (last (deliveries total_size
              (map (\<lambda>(n, t). Data n t) cs @ [EndOfStream t]) initial_state))))
             = length_bytes initial_state + sum_list (map fst cs)"
    using deliveries_exact_body[of initial_state total_size cs t] by blast
  from r a show "deliveries total_size evs initial_state \<noteq> []" by simp
  from r a show "isComplete (snd (last (deliveries total_size evs initial_state)))" by simp
  from r a show "transferred (progress (snd (last (deliveries total_size evs initial_state))))
               = sum_list (map fst cs)" by (simp add: initial_state_def)
qed

theorem progress_latch_monotone_witness:
  "deliveries (Fin 10) (map (\<lambda>(n, t). Data n t) [(4, 300), (6, 400)] @ [EndOfStream 500])
       initial_state
     = [(300, \<lparr>progress = \<lparr>total = Fin 10, percent = Fin (2 / 5), transferred = 4\<rparr>,
                isComplete = False\<rparr>),
        (400, \<lparr>progress = \<lparr>total = Fin 10, percent = Fin 1, transferred = 10\<rparr>,
                isComplete = True\<rparr>)]
   \<and> isComplete (snd (last (deliveries (Fin 10)
         (map (\<lambda>(n, t). Data n t) [(4, 300), (6, 400)] @ [EndOfStream 500]) initial_state)))
   \<and> transferred (progress (snd (last (deliveries (Fin 10)
         (map (\<lambda>(n, t). Data n t) [(4, 300), (6, 400)] @ [EndOfStream 500]) initial_state))))
       = sum_list (map fst [(4::nat, 300::int), (6, 400)])
   \<and> Suc 1 = length (deliveries (Fin 10)
         (map (\<lambda>(n, t). Data n t) [(4, 300), (6, 400)] @ [EndOfStream 500]) initial_state)"
proof -
  let ?cs = "[(4::nat, 300::int), (6, 400)]"
  let ?evs = "map (\<lambda>(n, t). Data n t) ?cs @ [EndOfStream 500]"
  have ds: "deliveries (Fin 10) ?evs initial_state
     = [(300, \<lparr>progress = \<lparr>total = Fin 10, percent = Fin (2 / 5), transferred = 4\<rparr>,
                isComplete = False\<rparr>),
        (400, \<lparr>progress = \<lparr>total = Fin 10, percent = Fin 1, transferred = 10\<rparr>,
                isComplete = True\<rparr>)]"
    by (simp add: onProgress_def initial_state_def Let_def js_div_def)
  have h1: "?evs = map (\<lambda>(n, t). Data n t) ?cs @ [EndOfStream 500]
            \<and> Fin 10 = Fin (of_nat (sum_list (map fst ?cs)))"
    by simp
  have h2: "1 < length (deliveries (Fin 10) ?evs initial_state)
            \<and> isComplete (snd (deliveries (Fin 10) ?evs initial_state ! 1))"
    unfolding ds by simp
  note inst = progress_latch_monotone[of "Fin 10" ?evs]
  from inst[THEN conjunct1, rule_format, of 1] h2
  have latch: "Suc 1 = length (deliveries (Fin 10) ?evs initial_state)"
    by simp
  have final: "deliveries (Fin 10) ?evs initial_state \<noteq> []
               \<and> isComplete (snd (last (deliveries (Fin 10) ?evs initial_state)))
               \<and> transferred (progress (snd (last (deliveries (Fin 10) ?evs initial_state))))
                   = sum_list (map fst ?cs)"
    by (rule inst[THEN conjunct2, THEN conjunct2, THEN conjunct2, rule_format, OF h1])
  show ?thesis
    by (rule conjI[OF ds conjI[OF final[THEN conjunct2, THEN conjunct1]
          conjI[OF final[THEN conjunct2, THEN conjunct2] latch]]])
qed


subsection \<open>The download\<close>

lemma lookup_unlink: "p \<noteq> [] \<Longrightarrow> lookup (unlink r p) p = None"
proof (induction r p rule: unlink.induct)
  case (1 n)
  then show ?case by simp
next
  case (2 c s p)
  then show ?case by simp
next
  case (3 es s)
  then show ?case by (simp add: delete_conv')
next
  case (4 es s v va)
  then show ?case by (simp add: update_conv' split: option.splits)
qed

lemma store_again:
  "store r p c = Some r' \<Longrightarrow> \<exists>r''. store r' p c' = Some r'' \<and> lookup r'' p = Some (File c')"
proof (induction r p c arbitrary: r' rule: store.induct)
  case (1 n c)
  then show ?case by simp
next
  case (2 c' s p c)
  then show ?case by simp
next
  case (3 es s c)
  then show ?case
    by (auto simp: update_conv' split: option.splits node.splits)
next
  case (4 es s v va c)
  from "4.prems" obtain n n' where n: "map_of es s = Some n"
    and n': "store n (v # va) c = Some n'" and r': "r' = Dir (AList.update s n' es)"
    by (auto split: option.splits)
  from "4.IH"[OF n n'] obtain n'' where
    "store n' (v # va) c' = Some n''" "lookup n'' (v # va) = Some (File c')" by blast
  with r' show ?case by (simp add: update_conv')
qed

lemma foldl_tracker_root:
  "root (foldl (\<lambda>v e. createProgressTracker m cm e v) w es) = root w"
  by (induction es arbitrary: w) (simp_all add: createProgressTracker_def)

lemma foldl_tracker_sink:
  "sink (foldl (\<lambda>v e. createProgressTracker m cm e v) w es) = sink w @ es"
  by (induction es arbitrary: w) (simp_all add: createProgressTracker_def)


text \<open>
  The events the sink receives during a download with a valid Content-Length are the
  \<open>deliveries\<close> of the events of the body, in their order.
\<close>

lemma download_sink:
  assumes "server env url = Inr response" and "ok response"
      and "content_length response = Some h" and "h \<noteq> []"
      and "\<not> isNaN (Number env h)" and "\<not> js_negative (Number env h)"
      and "store (root w) outputPath Truncated \<noteq> None"
  shows "sink (snd (downloadFileWithProgressTrackerAsync env url outputPath m cm w))
           = sink w @ map snd (deliveries (Number env h) (body_events response) initial_state)"
  using assms
  by (auto simp: downloadFileWithProgressTrackerAsync_def wrapFetchWithProgress_def fetch_def
        Let_def pipeline_def Log_newLine_def fs_remove_def foldl_tracker_sink foldl_tracker_root
      split: option.splits stream_end.splits)

text \<open>
  Claim C7. When the response is successful and its Content-Length is missing, empty,
  not a number or negative, \<open>wrapFetchWithProgress\<close> logs the warning, attaches no
  listener and returns the response as it is, without an error; the download never
  calls the sink; and the transfer goes on: if the stream ends and the file can be
  written, the download succeeds and the file holds the body.
\<close>

theorem invalid_content_length_disables_progress:
  assumes "server env url = Inr response" and "ok response"
      and "content_length response = None
           \<or> (\<exists>s. content_length response = Some s
                  \<and> (s = [] \<or> isNaN (Number env s) \<or> js_negative (Number env s)))"
  shows "wrapFetchWithProgress env url init progressHandler w
           = (Inr (response, None),
              Log_warn (warning_no_progress url) (w\<lparr>requests := requests w @ [(url, init)]\<rparr>))
         \<and> sink (snd (downloadFileWithProgressTrackerAsync env url outputPath m cm w)) = sink w
         \<and> ((\<exists>t. ending response = End t) \<and> store (root w) outputPath Truncated \<noteq> None
              \<longrightarrow> fst (downloadFileWithProgressTrackerAsync env url outputPath m cm w) = Inr ()
                  \<and> lookup (root (snd (downloadFileWithProgressTrackerAsync env url outputPath m cm w)))
                       outputPath = Some (File (payload response)))"
proof -
  have wrap: "\<And>init progressHandler w. wrapFetchWithProgress env url init progressHandler w
           = (Inr (response, None),
              Log_warn (warning_no_progress url) (w\<lparr>requests := requests w @ [(url, init)]\<rparr>))"
    using assms by (auto simp: wrapFetchWithProgress_def fetch_def Let_def)
  have sink_same: "sink (snd (downloadFileWithProgressTrackerAsync env url outputPath m cm w)) = sink w"
    using assms(2)
    by (auto simp: downloadFileWithProgressTrackerAsync_def wrap Let_def pipeline_def
          Log_warn_def Log_newLine_def fs_remove_def
          split: option.splits stream_end.splits)
  have proceeds: "fst (downloadFileWithProgressTrackerAsync env url outputPath m cm w) = Inr ()
                  \<and> lookup (root (snd (downloadFileWithProgressTrackerAsync env url outputPath m cm w)))
                       outputPath = Some (File (payload response))"
    if "\<exists>t. ending response = End t" and "store (root w) outputPath Truncated \<noteq> None"
  proof -
    from that obtain t r where t: "ending response = End t"
      and r: "store (root w) outputPath Truncated = Some r" by auto
    from store_again[OF r, of "payload response"] obtain r' where
      r': "store r outputPath (payload response) = Some r'"
      "lookup r' outputPath = Some (File (payload response))" by blast
    show ?thesis
      using assms(2) t r r'
      by (simp add: downloadFileWithProgressTrackerAsync_def wrap Let_def pipeline_def
          Log_warn_def Log_newLine_def)
  qed
  from wrap sink_same proceeds show ?thesis by blast
qed

theorem invalid_content_length_disables_progress_witness:
  "wrapFetchWithProgress example_env ''https://h/nolength.apk'' 300000
       (createProgressTracker ''Downloading app'' ''Successfully downloaded app'') fresh_world
     = (Inr (\<lparr>ok = True, content_length = Some ''-5'', chunks = [(4, 1000), (6, 1300)],
               ending = End 1400, payload = Opaque\<rparr>, None),
        Log_warn (warning_no_progress ''https://h/nolength.apk'')
          (fresh_world\<lparr>requests := requests fresh_world @ [(''https://h/nolength.apk'', 300000)]\<rparr>))
   \<and> sink (snd (downloadFileWithProgressTrackerAsync example_env ''https://h/nolength.apk''
          [''tmp'', ''out.apk''] ''Downloading app'' ''Successfully downloaded app'' fresh_world))
       = []
   \<and> fst (downloadFileWithProgressTrackerAsync example_env ''https://h/nolength.apk''
          [''tmp'', ''out.apk''] ''Downloading app'' ''Successfully downloaded app'' fresh_world)
       = Inr ()
   \<and> lookup (root (snd (downloadFileWithProgressTrackerAsync example_env ''https://h/nolength.apk''
          [''tmp'', ''out.apk''] ''Downloading app'' ''Successfully downloaded app'' fresh_world)))
        [''tmp'', ''out.apk''] = Some (File Opaque)"
proof -
  let ?r = "\<lparr>ok = True, content_length = Some ''-5'', chunks = [(4, 1000), (6, 1300)],
               ending = End 1400, payload = Opaque\<rparr>"
  have h1: "server example_env ''https://h/nolength.apk'' = Inr ?r"
    by (simp add: example_env_def example_server_def)
  have h2: "ok ?r" by simp
  have h3: "content_length ?r = None
           \<or> (\<exists>s. content_length ?r = Some s
                  \<and> (s = [] \<or> isNaN (Number example_env s) \<or> js_negative (Number example_env s)))"
    by (simp add: example_env_def decimal_def js_negative_def)
  have h4: "(\<exists>t. ending ?r = End t) \<and> store (root fresh_world) [''tmp'', ''out.apk''] Truncated \<noteq> None"
    by (simp add: fresh_world_def)
  from invalid_content_length_disables_progress[OF h1 h2 h3,
      of 300000 "createProgressTracker ''Downloading app'' ''Successfully downloaded app''"
        fresh_world "[''tmp'', ''out.apk'']" "''Downloading app''" "''Successfully downloaded app''"] h4
  show ?thesis
    by (simp add: fresh_world_def)
qed


text \<open>
  Claim C8. Whenever \<open>downloadFileWithProgressTrackerAsync\<close> fails, for whatever
  reason (the request fails, the status is not a success, the file cannot be opened,
  the stream fails or times out while it is written), nothing is left at the output
  path when the error leaves the function. The output path is not the root of the
  file system; removal itself is taken to succeed.
\<close>

theorem failed_download_leaves_no_file:
  assumes "downloadFileWithProgressTrackerAsync env url outputPath m cm w = (Inl e, w')"
      and "outputPath \<noteq> []"
  shows "lookup (root w') outputPath = None"
  using assms
  by (auto simp: downloadFileWithProgressTrackerAsync_def Let_def fs_pathExists_def
        fs_remove_def lookup_unlink split: prod.splits sum.splits if_splits)

theorem failed_download_leaves_no_file_witness:
  "fst (downloadFileWithProgressTrackerAsync example_env ''https://h/slow.apk''
          [''tmp'', ''out.apk''] ''Downloading app'' ''Successfully downloaded app'' fresh_world)
     = Inl (Error ''network timeout'')
   \<and> lookup (root (snd (downloadFileWithProgressTrackerAsync example_env ''https://h/slow.apk''
          [''tmp'', ''out.apk''] ''Downloading app'' ''Successfully downloaded app'' fresh_world)))
        [''tmp'', ''out.apk''] = None
   \<and> lookup (root (snd (pipeline
          \<lparr>ok = True, content_length = Some ''10'', chunks = [(4, 1000)],
            ending = Abort ''network timeout'', payload = Opaque\<rparr> None
          [''tmp'', ''out.apk''] fresh_world))) [''tmp'', ''out.apk''] = Some (File Truncated)"
proof -
  let ?d = "downloadFileWithProgressTrackerAsync example_env ''https://h/slow.apk''
          [''tmp'', ''out.apk''] ''Downloading app'' ''Successfully downloaded app'' fresh_world"
  have f: "fst ?d = Inl (Error ''network timeout'')"
    by (simp add: downloadFileWithProgressTrackerAsync_def wrapFetchWithProgress_def fetch_def
        example_env_def example_server_def fresh_world_def Let_def pipeline_def decimal_def
        isNaN_def js_negative_def fs_pathExists_def fs_remove_def Log_newLine_def)
  then have "?d = (Inl (Error ''network timeout''), snd ?d)"
    by (metis prod.collapse)
  from failed_download_leaves_no_file[OF this] f show ?thesis
    by (simp add: pipeline_def fresh_world_def)
qed


subsection \<open>Directories are kept\<close>

lemma is_dir_Nil [simp]: "is_dir r [] = (\<exists>es. r = Dir es)"
  by (cases r) (simp_all add: is_dir_def)

lemma is_dir_File [simp]: "is_dir (File c) p = False"
  by (cases p) (simp_all add: is_dir_def)

lemma is_dir_Cons:
  "is_dir (Dir es) (s # p) = (case map_of es s of None \<Rightarrow> False | Some n \<Rightarrow> is_dir n p)"
  by (simp add: is_dir_def split: option.splits)

lemma is_dir_lookup: "is_dir r p = (\<exists>es. lookup r p = Some (Dir es))"
  by (auto simp: is_dir_def split: option.splits node.splits)

lemma mkdirp_is_dir: "mkdirp r p = Some r' \<Longrightarrow> is_dir r' p"
proof (induction r p arbitrary: r' rule: mkdirp.induct)
  case (1 c p)
  then show ?case by simp
next
  case (2 es)
  then show ?case by auto
next
  case (3 es s p)
  then show ?case
    by (auto simp: is_dir_Cons update_conv' split: option.splits)
qed

lemma mkdirp_existing: "is_dir r p \<Longrightarrow> mkdirp r p = Some r"
proof (induction r p rule: mkdirp.induct)
  case (1 c p)
  then show ?case by simp
next
  case (2 es)
  then show ?case by simp
next
  case (3 es s p)
  then show ?case
    by (auto simp: is_dir_Cons update_triv split: option.splits)
qed

lemma mkdirp_keeps_dirs: "mkdirp r p = Some r' \<Longrightarrow> is_dir r q \<Longrightarrow> is_dir r' q"
proof (induction r p arbitrary: r' q rule: mkdirp.induct)
  case (1 c p)
  then show ?case by simp
next
  case (2 es)
  then show ?case by simp
next
  case (3 es s p)
  from "3.prems"(1) obtain n' where
    n': "mkdirp (case map_of es s of None \<Rightarrow> Dir [] | Some n \<Rightarrow> n) p = Some n'"
    and r': "r' = Dir (AList.update s n' es)"
    by (auto split: option.splits)
  show ?case
  proof (cases q)
    case Nil
    with r' show ?thesis by simp
  next
    case (Cons t q')
    show ?thesis
    proof (cases "t = s")
      case True
      with "3.prems"(2) Cons obtain n where n: "map_of es s = Some n" "is_dir n q'"
        by (auto simp: is_dir_Cons split: option.splits)
      with n' have "mkdirp n p = Some n'" by simp
      with "3.IH"[of n' q'] n have "is_dir n' q'" by simp
      with r' Cons True show ?thesis by (simp add: is_dir_Cons update_conv')
    next
      case False
      with "3.prems"(2) Cons r' show ?thesis by (simp add: is_dir_Cons update_conv')
    qed
  qed
qed

lemma store_keeps_dirs: "store r p c = Some r' \<Longrightarrow> is_dir r q \<Longrightarrow> is_dir r' q"
proof (induction r p c arbitrary: r' q rule: store.induct)
  case (1 n c)
  then show ?case by simp
next
  case (2 c' s p c)
  then show ?case by simp
next
  case (3 es s c)
  from "3.prems"(1) have r': "r' = Dir (AList.update s (File c) es)"
    and nd: "\<And>ds. map_of es s \<noteq> Some (Dir ds)"
    by (auto split: option.splits node.splits)
  show ?case
  proof (cases q)
    case Nil
    with r' show ?thesis by simp
  next
    case (Cons t q')
    show ?thesis
    proof (cases "t = s")
      case True
      with "3.prems"(2) Cons obtain n where n: "map_of es s = Some n" "is_dir n q'"
        by (auto simp: is_dir_Cons split: option.splits)
      with nd obtain c0 where "n = File c0" by (cases n) auto
      with n show ?thesis by simp
    next
      case False
      with "3.prems"(2) Cons r' show ?thesis by (simp add: is_dir_Cons update_conv')
    qed
  qed
next
  case (4 es s v va c)
  from "4.prems"(1) obtain n n' where n: "map_of es s = Some n"
    and n': "store n (v # va) c = Some n'" and r': "r' = Dir (AList.update s n' es)"
    by (auto split: option.splits)
  show ?case
  proof (cases q)
    case Nil
    with r' show ?thesis by simp
  next
    case (Cons t q')
    show ?thesis
    proof (cases "t = s")
      case True
      with "4.prems"(2) Cons n have "is_dir n q'"
        by (auto simp: is_dir_Cons)
      with "4.IH"[OF n n'] have "is_dir n' q'" by simp
      with r' Cons True show ?thesis by (simp add: is_dir_Cons update_conv')
    next
      case False
      with "4.prems"(2) Cons r' show ?thesis by (simp add: is_dir_Cons update_conv')
    qed
  qed
qed

subsection \<open>Writing the members of an archive\<close>

lemma is_dir_has: "is_dir r q = has r q (Dir [])"
  by (simp add: is_dir_def has_def split: option.splits node.splits)

lemma has_Nil: "has r [] new = ((\<exists>es. r = Dir es) \<or> r = new)"
  by (cases r) (auto simp: has_def)

lemma has_Cons:
  "has r (s # q) new = (\<exists>es n. r = Dir es \<and> map_of es s = Some n \<and> has n q new)"
  by (cases r) (auto simp: has_def split: option.splits)

lemma place_identity: "has r q new \<Longrightarrow> place (Some r) q new = r"
proof (induction q arbitrary: r)
  case Nil
  then show ?case by (cases r) (auto simp: has_Nil)
next
  case (Cons s q)
  then obtain es n where r: "r = Dir es" and n: "map_of es s = Some n" and h: "has n q new"
    by (auto simp: has_Cons)
  from Cons.IH[OF h] n r show ?case by (simp add: update_triv)
qed

lemma place_has: "has (place old q new) q new"
proof (induction old q new rule: place.induct)
qed (auto simp: has_Nil has_Cons update_conv')

lemma place_keeps:
  "has r q new \<Longrightarrow> new' = new \<or> (\<exists>es. new' = Dir es) \<or> (\<exists>es. new = Dir es)
     \<Longrightarrow> has (place (Some r) q' new') q new"
proof (induction q' arbitrary: r q)
  case Nil
  then show ?case by (cases r; cases q) (auto simp: has_Nil has_Cons)
next
  case (Cons s p)
  note IH = Cons.IH and prems = Cons.prems
  show ?case
  proof (cases q)
    case Nil
    then show ?thesis by (cases r) (auto simp: has_Nil)
  next
    case (Cons t q2)
    with prems obtain es n where r: "r = Dir es" and n: "map_of es t = Some n"
      and h: "has n q2 new"
      by (auto simp: has_Cons)
    show ?thesis
    proof (cases "t = s")
      case True
      from IH[OF h prems(2)] True n r Cons show ?thesis
        by (auto simp: has_Cons update_conv')
    next
      case False
      with n r h Cons show ?thesis by (auto simp: has_Cons update_conv')
    qed
  qed
qed

lemma place_keeps_dirs: "is_dir r q \<Longrightarrow> is_dir (place (Some r) p new) q"
  by (simp add: is_dir_has place_keeps)

lemma member_node_cases: "member_node m = File Opaque \<or> member_node m = Dir []"
  by (cases m) simp_all

lemma write_member_in_place: "in_place out (write_member out r m) m"
  by (auto simp: in_place_def write_member_def Let_def place_has)

lemma write_member_keeps:
  "in_place out r m \<Longrightarrow> in_place out (write_member out r m') m"
  using member_node_cases[of m] member_node_cases[of m']
  by (auto simp: in_place_def write_member_def Let_def intro!: place_keeps)

lemma write_member_identity: "in_place out r m \<Longrightarrow> write_member out r m = r"
  by (auto simp: in_place_def write_member_def Let_def place_identity)

lemma write_member_keeps_dirs: "is_dir r q \<Longrightarrow> is_dir (write_member out r m) q"
  by (simp add: write_member_def Let_def place_keeps_dirs)

lemma write_members_keeps_dirs: "is_dir r q \<Longrightarrow> is_dir (write_members r out ms) q"
  unfolding write_members_def
  by (induction ms arbitrary: r) (simp_all add: write_member_keeps_dirs)

lemma write_members_in_place:
  "list_all (in_place out r) ds
     \<Longrightarrow> list_all (in_place out (write_members r out ms)) (ds @ ms)"
  unfolding write_members_def
proof (induction ms arbitrary: r ds)
  case Nil
  then show ?case by simp
next
  case (Cons m ms)
  from Cons.prems have "list_all (in_place out (write_member out r m)) (ds @ [m])"
    by (auto simp: list_all_iff write_member_keeps write_member_in_place)
  from Cons.IH[OF this] show ?case by simp
qed

lemma write_members_identity:
  "list_all (in_place out r) ms \<Longrightarrow> write_members r out ms = r"
  unfolding write_members_def
  by (induction ms) (simp_all add: write_member_identity)

lemma write_members_append:
  "write_members r out (ms @ ns) = write_members (write_members r out ms) out ns"
  by (simp add: write_members_def)

lemma write_members_again:
  "write_members (write_members r out ms) out (ms @ ns) = write_members r out (ms @ ns)"
proof -
  have "list_all (in_place out (write_members r out ms)) ms"
    using write_members_in_place[of out r "[]" ms] by simp
  then show ?thesis
    by (simp add: write_members_append write_members_identity)
qed

lemma write_members_resumed:
  "take (length ms) ns = ms
     \<Longrightarrow> write_members (write_members r out ms) out ns = write_members r out ns"
  using write_members_again[of r out ms "drop (length ms) ns"]
  by (metis append_take_drop_id)

lemma mkdirp_fresh: "lookup r p = None \<Longrightarrow> mkdirp r p = Some r' \<Longrightarrow> lookup r' p = Some (Dir [])"
proof (induction r p arbitrary: r' rule: mkdirp.induct)
  case (1 c p)
  then show ?case by simp
next
  case (2 es)
  then show ?case by simp
next
  case (3 es s p)
  from "3.prems"(2) obtain n' where
    n': "mkdirp (case map_of es s of None \<Rightarrow> Dir [] | Some n \<Rightarrow> n) p = Some n'"
    and r': "r' = Dir (AList.update s n' es)"
    by (auto split: option.splits)
  show ?case
  proof (cases "map_of es s")
    case None
    show ?thesis
    proof (cases p)
      case Nil
      with n' None r' show ?thesis by (simp add: update_conv')
    next
      case (Cons t p')
      then have "lookup (Dir []) p = None" by simp
      with "3.IH"[of n'] n' None have "lookup n' p = Some (Dir [])" by simp
      with r' show ?thesis by (simp add: update_conv')
    qed
  next
    case (Some n)
    with "3.prems"(1) have "lookup n p = None" by simp
    with "3.IH"[of n'] n' Some have "lookup n' p = Some (Dir [])" by simp
    with r' show ?thesis by (simp add: update_conv')
  qed
qed

lemma mkdirp_file: "lookup r p = Some (File c) \<Longrightarrow> mkdirp r p = None"
proof (induction r p rule: mkdirp.induct)
  case (1 c p)
  then show ?case by simp
next
  case (2 es)
  then show ?case by simp
next
  case (3 es s p)
  then show ?case by (auto split: option.splits)
qed


subsection \<open>Paths and random names\<close>

lemma clean_Nil [simp]: "clean []"
  by (simp add: clean_def)

lemma clean_snoc [simp]: "clean (p @ [s]) = (clean p \<and> proper s)"
  by (auto simp: clean_def proper_def)

lemma clean_butlast: "clean p \<Longrightarrow> clean (butlast p)"
  by (induction p) (auto simp: clean_def)

lemma normalize_snoc:
  "normalize (p @ [s]) =
     (if s = [] \<or> s = ''.'' then normalize p
      else if s = ''..'' then butlast (normalize p) else normalize p @ [s])"
  by (simp add: normalize_def)

lemma clean_normalize: "clean (normalize p)"
proof (induction p rule: rev_induct)
  case Nil
  then show ?case by (simp add: normalize_def)
next
  case (snoc s p)
  then show ?case
    by (auto simp: normalize_snoc clean_butlast proper_def)
qed

lemma normalize_clean: "clean p \<Longrightarrow> normalize p = p"
proof (induction p rule: rev_induct)
  case Nil
  then show ?case by (simp add: normalize_def)
next
  case (snoc s p)
  then show ?case by (auto simp: normalize_snoc proper_def)
qed

lemma path_join_proper:
  "proper s \<Longrightarrow> path_join (path_join a b) [s] = path_join a b @ [s]"
  using normalize_clean[of "normalize (a @ b) @ [s]"] clean_normalize[of "a @ b"]
  by (simp add: path_join_def)

lemma hex_lower_not_dot: "hex_lower d \<noteq> CHR ''.''"
proof -
  define k where "k = d mod 16"
  then have "k < 16" by simp
  then have "k \<in> {0,1,2,3,4,5,6,7,8,9,10,11,12,13,14,15}"
    by (simp only: insert_iff empty_iff) arith
  then have "''0123456789abcdef'' ! k \<noteq> CHR ''.''"
    by auto
  then show ?thesis
    by (simp add: hex_lower_def k_def)
qed

lemma uuid_string_head: "\<exists>d rest. uuid_string x = hex_lower d # rest"
proof -
  have e: "[0..<8] = 0 # [Suc 0..<8]"
    by (rule upt_conv_Cons) simp
  show ?thesis
    unfolding uuid_string_def Let_def e list.map append_Cons by blast
qed

lemma uuid_name_proper: "proper (uuid_string x @ ext)"
  using uuid_string_head[of x] hex_lower_not_dot by (auto simp: proper_def)

lemma uuid_name_visible: "uuid_string x @ ext \<noteq> [] \<and> hd (uuid_string x @ ext) \<noteq> CHR ''.''"
  using uuid_string_head[of x] hex_lower_not_dot by auto

lemma endsWith_append: "endsWith (u @ t) t"
  by (simp add: endsWith_def)

lemma uuid_apk_matches: "glob_match ''./**/*.(apk|app|ipa)'' [uuid_string x @ ''.apk'']"
  using uuid_name_visible[of x "''.apk''"] endsWith_append[of "uuid_string x" "''.apk''"]
  by (simp add: glob_match_def pattern_extensions_app)


subsection \<open>Writing a file into a directory\<close>

lemma walk_list_append: "walk_list (es @ fs) = walk_list es @ walk_list fs"
  by (induction es) auto

lemma walk_list_key: "(s, n) \<in> set es \<Longrightarrow> [s] \<in> set (walk_list es)"
  by (induction es) auto

lemma update_absent: "k \<notin> fst ` set al \<Longrightarrow> AList.update k v al = al @ [(k, v)]"
  by (induction al) auto

lemma lookup_append:
  "lookup r (p @ q) = (case lookup r p of None \<Rightarrow> None | Some n \<Rightarrow> lookup n q)"
proof (induction r p rule: lookup.induct)
  case (1 n)
  then show ?case by simp
next
  case (2 c s p)
  then show ?case by simp
next
  case (3 es s p)
  then show ?case by (simp split: option.splits)
qed

lemma store_into_dir:
  assumes "lookup r d = Some (Dir es)" and "\<And>ds. map_of es s \<noteq> Some (Dir ds)"
  shows "\<exists>r'. store r (d @ [s]) c = Some r'
            \<and> lookup r' d = Some (Dir (AList.update s (File c) es))"
  using assms
proof (induction d arbitrary: r)
  case Nil
  then show ?case by (auto split: option.splits node.splits)
next
  case (Cons t d)
  from Cons.prems(1) obtain fs n where r: "r = Dir fs" and n: "map_of fs t = Some n"
    and l: "lookup n d = Some (Dir es)"
    by (cases r) (auto split: option.splits)
  from Cons.IH[OF l Cons.prems(2)] obtain n' where
    n': "store n (d @ [s]) c = Some n'" "lookup n' d = Some (Dir (AList.update s (File c) es))"
    by blast
  have "d @ [s] \<noteq> []" by simp
  then obtain v va where dv: "d @ [s] = v # va" by (cases "d @ [s]") auto
  from n' n r dv have "store r ((t # d) @ [s]) c = Some (Dir (AList.update t n' fs))"
    by simp
  moreover have "lookup (Dir (AList.update t n' fs)) (t # d) = Some (Dir (AList.update s (File c) es))"
    using n' by (simp add: update_conv')
  ultimately show ?case by blast
qed


subsection \<open>What each step changes\<close>

lemma spawnAsync_tar:
  "spawnAsync env ''tar'' [Flag ''-xf'', PathArg input, Flag ''-C'', PathArg output] w =
     (let w2 = w\<lparr>spawned := spawned w
                  @ [(''tar'', [Flag ''-xf'', PathArg input, Flag ''-C'', PathArg output])],
                 root := write_members (root w) output
                           (fst (tar_process env input output (root w)))\<rparr> in
      case snd (tar_process env input output (root w)) of
        Some message \<Rightarrow> (Inl (Error message), w2)
      | None \<Rightarrow> (Inr (), w2))"
  by (simp add: spawnAsync_def Let_def split: prod.splits option.splits)

lemma tar_extract_run:
  "tar_extract env input output w =
     (let w2 = w\<lparr>extracted := extracted w @ [(input, output)],
                 root := write_members (root w) output
                           (fst (tar_module env input output (root w)))\<rparr> in
      case snd (tar_module env input output (root w)) of
        Some message \<Rightarrow> (Inl (Error message), w2)
      | None \<Rightarrow> (Inr (), w2))"
  by (simp add: tar_extract_def Let_def split: prod.splits option.splits)

lemma getAppPathAsync_root:
  "root w = root w' \<Longrightarrow> fst (getAppPathAsync d ext w) = fst (getAppPathAsync d ext w')"
  by (simp add: getAppPathAsync_def glob_def Let_def)

lemma tar_extract_root:
  "root v = root w \<Longrightarrow>
     fst (tar_extract env input output v) = fst (tar_extract env input output w)
     \<and> root (snd (tar_extract env input output v)) = root (snd (tar_extract env input output w))"
  by (simp add: tar_extract_run Let_def split: option.splits)

lemma foldl_tracker_frame:
  "requests (foldl (\<lambda>v e. createProgressTracker m cm e v) w es) = requests w
   \<and> spawned (foldl (\<lambda>v e. createProgressTracker m cm e v) w es) = spawned w
   \<and> extracted (foldl (\<lambda>v e. createProgressTracker m cm e v) w es) = extracted w
   \<and> uuid_count (foldl (\<lambda>v e. createProgressTracker m cm e v) w es) = uuid_count w
   \<and> root (foldl (\<lambda>v e. createProgressTracker m cm e v) w es) = root w"
  by (induction es arbitrary: w) (simp_all add: createProgressTracker_def)

lemma wrapFetch_frame:
  "wrapFetchWithProgress env url init h w = (res, w1)
     \<Longrightarrow> requests w1 = requests w @ [(url, init)] \<and> spawned w1 = spawned w
         \<and> extracted w1 = extracted w \<and> uuid_count w1 = uuid_count w \<and> root w1 = root w
         \<and> (\<forall>r l. res = Inr (r, l) \<longrightarrow> l = None \<or> (\<exists>t. l = Some (t, h)))"
  by (auto simp: wrapFetchWithProgress_def fetch_def Let_def Log_warn_def
      split: sum.splits option.splits if_splits)

lemma pipeline_frame:
  "pipeline r (Some (t, createProgressTracker m cm)) p w = (res, w1)
     \<or> pipeline r None p w = (res, w1)
     \<Longrightarrow> requests w1 = requests w \<and> spawned w1 = spawned w
         \<and> extracted w1 = extracted w \<and> uuid_count w1 = uuid_count w
         \<and> (res = Inr () \<longrightarrow>
               (\<exists>r1. store (root w) p Truncated = Some r1
                     \<and> store r1 p (payload r) = Some (root w1)))"
  by (auto simp: pipeline_def Let_def foldl_tracker_frame
      split: option.splits stream_end.splits)

lemma download_frame:
  assumes "downloadFileWithProgressTrackerAsync env url p m cm w = (res, w')"
  shows "requests w' = requests w @ [(url, 300000)] \<and> spawned w' = spawned w
         \<and> extracted w' = extracted w \<and> uuid_count w' = uuid_count w
         \<and> (res = Inr () \<longrightarrow>
               (\<exists>r1 c. store (root w) p Truncated = Some r1 \<and> store r1 p c = Some (root w')))"
proof -
  obtain res0 w1 where wf: "wrapFetchWithProgress env url 300000 (createProgressTracker m cm)
      (Log_newLine w) = (res0, w1)"
    by (cases "wrapFetchWithProgress env url 300000 (createProgressTracker m cm) (Log_newLine w)")
  note f = wrapFetch_frame[OF wf]
  show ?thesis
  proof (cases res0)
    case (Inl e)
    with assms wf f show ?thesis
      by (auto simp: downloadFileWithProgressTrackerAsync_def Let_def Log_newLine_def
          fs_remove_def split: if_splits)
  next
    case (Inr rl)
    obtain r l where rl: "rl = (r, l)" by (cases rl)
    show ?thesis
    proof (cases "ok r")
      case False
      with assms wf f Inr rl show ?thesis
        by (auto simp: downloadFileWithProgressTrackerAsync_def Let_def Log_newLine_def
            fs_remove_def split: if_splits)
    next
      case True
      obtain res1 w2 where pl: "pipeline r l p w1 = (res1, w2)"
        by (cases "pipeline r l p w1")
      from f Inr rl have "l = None \<or> (\<exists>t. l = Some (t, createProgressTracker m cm))"
        by simp
      with pl pipeline_frame[of r _ m cm p w1 res1 w2]
      have pf: "requests w2 = requests w1 \<and> spawned w2 = spawned w1
         \<and> extracted w2 = extracted w1 \<and> uuid_count w2 = uuid_count w1
         \<and> (res1 = Inr () \<longrightarrow>
               (\<exists>r1. store (root w1) p Truncated = Some r1
                     \<and> store r1 p (payload r) = Some (root w2)))"
        by blast
      with assms wf f Inr rl True pl show ?thesis
        by (auto simp: downloadFileWithProgressTrackerAsync_def Let_def Log_newLine_def
            fs_remove_def split: if_splits sum.splits)
    qed
  qed
qed

lemma tarExtractAsync_frame:
  assumes "tarExtractAsync env input output w = (res, w')"
  shows "requests w' = requests w \<and> uuid_count w' = uuid_count w
         \<and> (\<exists>ms ns. root w' = write_members (write_members (root w) output ms) output ns)
         \<and> (spawned w' \<noteq> spawned w \<or> extracted w' \<noteq> extracted w)"
proof -
  have none: "\<And>r. write_members r output [] = r" by (simp add: write_members_def)
  show ?thesis
  proof (cases "platform env = ''win32''")
    case True
    with assms have "root w' = write_members (write_members (root w) output []) output
                       (fst (tar_module env input output (root w)))"
      by (auto simp: tarExtractAsync_def tar_extract_run Let_def Log_debug_def none
          split: option.splits)
    moreover from True assms have "requests w' = requests w \<and> uuid_count w' = uuid_count w
        \<and> extracted w' \<noteq> extracted w"
      by (auto simp: tarExtractAsync_def tar_extract_run Let_def Log_debug_def
          split: option.splits)
    ultimately show ?thesis by blast
  next
    case False
    let ?ms = "fst (tar_process env input output (root w))"
    let ?r1 = "write_members (root w) output ?ms"
    from False assms have "root w' = write_members ?r1 output []
        \<or> root w' = write_members ?r1 output (fst (tar_module env input output ?r1))"
      by (auto simp: tarExtractAsync_def spawnAsync_tar tar_extract_run Let_def Log_warn_def
          Log_debug_def none split: option.splits)
    moreover from False assms have "requests w' = requests w \<and> uuid_count w' = uuid_count w
        \<and> spawned w' \<noteq> spawned w"
      by (auto simp: tarExtractAsync_def spawnAsync_tar tar_extract_run Let_def Log_warn_def
          Log_debug_def split: option.splits)
    ultimately show ?thesis by blast
  qed
qed

lemma getAppPathAsync_success:
  assumes "getAppPathAsync d ext w = (Inr p, w')"
  shows "w' = w \<and> fs_pathExists d w
         \<and> (\<exists>m. glob (''./**/*.'' @ ext) d w = [m] \<and> p = path_join d m)"
proof -
  from assms have one: "length (glob (''./**/*.'' @ ext) d w) = 1" and w: "w' = w"
    and p: "p = path_join d (glob (''./**/*.'' @ ext) d w ! 0)"
    by (auto simp: getAppPathAsync_def Let_def split: if_splits)
  from one obtain m where m: "glob (''./**/*.'' @ ext) d w = [m]"
    by (cases "glob (''./**/*.'' @ ext) d w") auto
  then have "fs_pathExists d w"
    by (auto simp: glob_def fs_pathExists_def split: option.splits)
  with w m p show ?thesis by simp
qed

lemma getAppPathAsync_frame:
  "getAppPathAsync d ext w = (res, w')
     \<Longrightarrow> requests w' = requests w \<and> spawned w' = spawned w \<and> extracted w' = extracted w
         \<and> root w' = root w \<and> uuid_count w' = uuid_count w"
  by (auto simp: getAppPathAsync_def Let_def Log_newLine_def Log_log_def split: if_splits)

lemma cached_after_locate:
  assumes "getAppPathAsync d ''(apk|app|ipa)'' w = (Inr p, w')"
  shows "cachedAppPath d w' = (Some (Inr p), w')"
  using getAppPathAsync_success[OF assms] assms
  by (simp add: cachedAppPath_def)

lemma cachedAppPath_cases:
  "cachedAppPath d w = (res, w1) \<Longrightarrow>
     (res = None \<and> w1 = w \<and> glob ''./**/*.(apk|app|ipa)'' d w = [])
     \<or> (\<exists>p. res = Some (Inr p) \<and> w1 = w \<and> getAppPathAsync d ''(apk|app|ipa)'' w = (Inr p, w))
     \<or> (\<exists>c m a. res = Some (Inl (InternalError c m a)) \<and> fs_pathExists d w
           \<and> getAppPathAsync d ''(apk|app|ipa)'' w = (Inl (InternalError c m a), w1))"
  by (auto simp: cachedAppPath_def getAppPathAsync_def Let_def glob_def fs_pathExists_def
      split: if_splits option.splits)

lemma cachedAppPath_miss:
  "glob ''./**/*.(apk|app|ipa)'' d w = [] \<Longrightarrow> cachedAppPath d w = (None, w)"
  by (simp add: cachedAppPath_def getAppPathAsync_def Let_def)

lemma fs_mkdir_success:
  "fs_mkdir p w = (Inr u, w') \<Longrightarrow> mkdirp (root w) p = Some (root w') \<and> w' = w\<lparr>root := root w'\<rparr>"
  by (auto simp: fs_mkdir_def split: option.splits)

lemma fs_mkdir_existing:
  "is_dir (root w) p \<Longrightarrow> fs_mkdir p w = (Inr (), w)"
  by (simp add: fs_mkdir_def mkdirp_existing)

lemma fs_mkdir_frame:
  "fs_mkdir p w = (res, w') \<Longrightarrow>
     requests w' = requests w \<and> spawned w' = spawned w \<and> extracted w' = extracted w
     \<and> uuid_count w' = uuid_count w"
  by (auto simp: fs_mkdir_def split: option.splits)

lemma downloadsCacheDirectory_success:
  "downloadsCacheDirectory env w = (Inr cacheDir, w0) \<Longrightarrow>
     cacheDir = path_join (tmpDirectory env) [''downloads-cache'']
     \<and> is_dir (root w0) cacheDir \<and> w0 = w\<lparr>root := root w0\<rparr>
     \<and> mkdirp (root w) cacheDir = Some (root w0)"
  by (auto simp: downloadsCacheDirectory_def Let_def fs_mkdir_def mkdirp_is_dir
      split: option.splits)

lemma downloadsCacheDirectory_existing:
  "is_dir (root w) (path_join (tmpDirectory env) [''downloads-cache''])
     \<Longrightarrow> downloadsCacheDirectory env w
          = (Inr (path_join (tmpDirectory env) [''downloads-cache'']), w)"
  by (simp add: downloadsCacheDirectory_def Let_def fs_mkdir_existing)

lemma uuidv4_frame:
  "uuidv4 env w = (u, w') \<Longrightarrow>
     u = uuid_string (entropy env (uuid_count w)) \<and> w' = w\<lparr>uuid_count := Suc (uuid_count w)\<rparr>"
  by (auto simp: uuidv4_def)

lemma glob_after_store:
  assumes empty: "glob pat d w = []" and dir: "is_dir (root w) d"
      and s1: "store (root w) (d @ [n]) c1 = Some r1"
      and s2: "store r1 (d @ [n]) c2 = Some (root w')"
      and m: "glob_match pat [n]"
  shows "glob pat d w' = [[n]]"
proof -
  from dir obtain es where es: "lookup (root w) d = Some (Dir es)"
    by (auto simp: is_dir_lookup)
  with empty have none: "filter (glob_match pat) (walk_list es) = []"
    by (simp add: glob_def)
  have absent: "n \<notin> fst ` set es"
  proof
    assume "n \<in> fst ` set es"
    then obtain x where "(n, x) \<in> set es" by auto
    then have "[n] \<in> set (walk_list es)" by (rule walk_list_key)
    with m have "[n] \<in> set (filter (glob_match pat) (walk_list es))" by simp
    with none show False by simp
  qed
  then have nomap: "map_of es n = None"
    by (simp add: map_of_eq_None_iff)
  then have "\<And>ds. map_of es n \<noteq> Some (Dir ds)" by simp
  from store_into_dir[OF es this, of c1] s1
  have l1: "lookup r1 d = Some (Dir (AList.update n (File c1) es))" by auto
  have "\<And>ds. map_of (AList.update n (File c1) es) n \<noteq> Some (Dir ds)"
    by (simp add: update_conv')
  from store_into_dir[OF l1 this, of c2] s2
  have "lookup (root w') d = Some (Dir (AList.update n (File c2) (AList.update n (File c1) es)))"
    by auto
  then have "lookup (root w') d = Some (Dir (AList.update n (File c2) es))"
    by (simp only: update_last)
  then have "lookup (root w') d = Some (Dir (es @ [(n, File c2)]))"
    using absent by (simp add: update_absent)
  then show ?thesis
    using none m by (simp add: glob_def walk_list_append)
qed

lemma glob_after_mkdir:
  assumes "glob pat d w = []" and "fs_mkdir d w = (Inr u, w1)"
  shows "glob pat d w1 = [] \<and> is_dir (root w1) d"
proof -
  from fs_mkdir_success[OF assms(2)] have mk: "mkdirp (root w) d = Some (root w1)" by simp
  then have dir: "is_dir (root w1) d" by (rule mkdirp_is_dir)
  show ?thesis
  proof (cases "lookup (root w) d")
    case None
    from mkdirp_fresh[OF None mk] dir show ?thesis by (simp add: glob_def)
  next
    case (Some n)
    show ?thesis
    proof (cases n)
      case (File c)
      with Some mkdirp_file mk show ?thesis by fastforce
    next
      case (Dir es)
      with Some have "is_dir (root w) d" by (simp add: is_dir_lookup)
      from mkdirp_existing[OF this] mk have "root w1 = root w" by simp
      with assms(1) dir show ?thesis by (simp add: glob_def)
    qed
  qed
qed

lemma freshDownload_apk:
  assumes apk: "endsWith url ''apk''"
  shows "freshDownload env url d w =
     (case fs_mkdir d w of
        (Inl e, w1) \<Rightarrow> (Inl e, w1)
      | (Inr u, w1) \<Rightarrow>
         (case downloadFileWithProgressTrackerAsync env url
                 (path_join d [uuid_string (entropy env (uuid_count w1)) @ ''.apk''])
                 ''Downloading app'' ''Successfully downloaded app''
                 (w1\<lparr>uuid_count := Suc (uuid_count w1)\<rparr>) of
            (Inl e, w3) \<Rightarrow> (Inl e, w3)
          | (Inr v, w3) \<Rightarrow>
              (Inr (path_join d [uuid_string (entropy env (uuid_count w1)) @ ''.apk'']), w3)))"
  using apk by (simp add: freshDownload_def uuidv4_def Let_def split: prod.splits sum.splits)

lemma freshDownload_archive:
  assumes "\<not> endsWith url ''apk''"
  shows "freshDownload env url d w =
     (case fs_mkdir d w of
        (Inl e, w1) \<Rightarrow> (Inl e, w1)
      | (Inr u, w1) \<Rightarrow>
         (case fs_mkdir (path_join (tmpDirectory env) [uuid_string (entropy env (uuid_count w1))])
                 (w1\<lparr>uuid_count := Suc (uuid_count w1)\<rparr>) of
            (Inl e, w3) \<Rightarrow> (Inl e, w3)
          | (Inr v, w3) \<Rightarrow>
             (case downloadFileWithProgressTrackerAsync env url
                     (path_join (path_join (tmpDirectory env)
                                   [uuid_string (entropy env (uuid_count w1))])
                        [uuid_string (entropy env (uuid_count w3)) @ ''.tar.gz''])
                     ''Downloading app archive'' ''Successfully downloaded app archive''
                     (w3\<lparr>uuid_count := Suc (uuid_count w3)\<rparr>) of
                (Inl e, w5) \<Rightarrow> (Inl e, w5)
              | (Inr v1, w5) \<Rightarrow>
                 (case tarExtractAsync env
                         (path_join (path_join (tmpDirectory env)
                                       [uuid_string (entropy env (uuid_count w1))])
                            [uuid_string (entropy env (uuid_count w3)) @ ''.tar.gz''])
                         d w5 of
                    (Inl e, w6) \<Rightarrow> (Inl e, w6)
                  | (Inr v2, w6) \<Rightarrow> getAppPathAsync d ''(apk|app|ipa)'' w6))))"
  using assms by (simp add: freshDownload_def uuidv4_def Let_def split: prod.splits sum.splits)

lemma freshDownload_requests:
  assumes "fs_mkdir d w = (Inr u, w1)"
  shows "requests (snd (freshDownload env url d w)) = requests w @ [(url, 300000)]
         \<or> (\<not> endsWith url ''apk''
             \<and> isl (fst (fs_mkdir (path_join (tmpDirectory env)
                                      [uuid_string (entropy env (uuid_count w1))])
                           (w1\<lparr>uuid_count := Suc (uuid_count w1)\<rparr>))))"
proof -
  from fs_mkdir_frame[OF assms] have rq1: "requests w1 = requests w" by simp
  show ?thesis
  proof (cases "endsWith url ''apk''")
    case True
    let ?w2 = "w1\<lparr>uuid_count := Suc (uuid_count w1)\<rparr>"
    let ?p = "path_join d [uuid_string (entropy env (uuid_count w1)) @ ''.apk'']"
    obtain res w3 where dl: "downloadFileWithProgressTrackerAsync env url ?p
         ''Downloading app'' ''Successfully downloaded app'' ?w2 = (res, w3)"
      by (cases "downloadFileWithProgressTrackerAsync env url ?p
         ''Downloading app'' ''Successfully downloaded app'' ?w2")
    from download_frame[OF dl] rq1 have "requests w3 = requests w @ [(url, 300000)]" by simp
    with dl assms True show ?thesis
      by (simp add: freshDownload_apk split: sum.splits)
  next
    case False
    let ?w2 = "w1\<lparr>uuid_count := Suc (uuid_count w1)\<rparr>"
    let ?tmp = "path_join (tmpDirectory env) [uuid_string (entropy env (uuid_count w1))]"
    obtain r2 w3 where mk2: "fs_mkdir ?tmp ?w2 = (r2, w3)" by (cases "fs_mkdir ?tmp ?w2")
    show ?thesis
    proof (cases r2)
      case (Inl e)
      with mk2 False show ?thesis by simp
    next
      case (Inr v)
      from fs_mkdir_frame[OF mk2] rq1 have rq3: "requests w3 = requests w" by simp
      let ?arch = "path_join ?tmp [uuid_string (entropy env (uuid_count w3)) @ ''.tar.gz'']"
      let ?w4 = "w3\<lparr>uuid_count := Suc (uuid_count w3)\<rparr>"
      obtain r4 w5 where dl: "downloadFileWithProgressTrackerAsync env url ?arch
             ''Downloading app archive'' ''Successfully downloaded app archive'' ?w4 = (r4, w5)"
        by (cases "downloadFileWithProgressTrackerAsync env url ?arch
             ''Downloading app archive'' ''Successfully downloaded app archive'' ?w4")
      from download_frame[OF dl] rq3 have rq5: "requests w5 = requests w @ [(url, 300000)]"
        by simp
      obtain r5 w6 where ex: "tarExtractAsync env ?arch d w5 = (r5, w6)"
        by (cases "tarExtractAsync env ?arch d w5")
      from tarExtractAsync_frame[OF ex] rq5 have rq6: "requests w6 = requests w @ [(url, 300000)]"
        by simp
      obtain r6 w7 where loc: "getAppPathAsync d ''(apk|app|ipa)'' w6 = (r6, w7)"
        by (cases "getAppPathAsync d ''(apk|app|ipa)'' w6")
      from getAppPathAsync_frame[OF loc] rq6 have rq7: "requests w7 = requests w @ [(url, 300000)]"
        by simp
      from assms mk2 Inr dl ex loc rq5 rq6 rq7 False
      have "requests (snd (freshDownload env url d w)) = requests w @ [(url, 300000)]"
        by (simp add: freshDownload_archive split: sum.splits)
      then show ?thesis ..
    qed
  qed
qed

lemma download_keeps_dirs:
  assumes "downloadFileWithProgressTrackerAsync env url p m cm w = (Inr u, w')"
      and "is_dir (root w) q"
  shows "is_dir (root w') q"
proof -
  from download_frame[OF assms(1)] obtain r1 c where
    "store (root w) p Truncated = Some r1" "store r1 p c = Some (root w')" by auto
  with assms(2) store_keeps_dirs show ?thesis by blast
qed

lemma tarExtractAsync_keeps_dirs:
  assumes "tarExtractAsync env input output w = (Inr u, w')" and "is_dir (root w) q"
  shows "is_dir (root w') q"
proof -
  from tarExtractAsync_frame[OF assms(1)] obtain ms ns where
    "root w' = write_members (write_members (root w) output ms) output ns" by blast
  with assms(2) show ?thesis by (simp add: write_members_keeps_dirs)
qed

lemma fs_mkdir_keeps_dirs:
  assumes "fs_mkdir p w = (Inr u, w')" and "is_dir (root w) q"
  shows "is_dir (root w') q"
  using fs_mkdir_success[OF assms(1)] assms(2) mkdirp_keeps_dirs by blast

lemma freshDownload_keeps_dirs:
  assumes ok: "freshDownload env url d w = (Inr p, w')" and dir: "is_dir (root w) q"
  shows "is_dir (root w') q"
proof -
  from ok obtain u w1 where mk: "fs_mkdir d w = (Inr u, w1)"
    by (auto simp: freshDownload_def split: prod.splits sum.splits)
  from fs_mkdir_keeps_dirs[OF mk dir] have d1: "is_dir (root w1) q" .
  show ?thesis
  proof (cases "endsWith url ''apk''")
    case True
    let ?w2 = "w1\<lparr>uuid_count := Suc (uuid_count w1)\<rparr>"
    from ok mk True obtain v where
      "downloadFileWithProgressTrackerAsync env url
         (path_join d [uuid_string (entropy env (uuid_count w1)) @ ''.apk''])
         ''Downloading app'' ''Successfully downloaded app'' ?w2 = (Inr v, w')"
      by (auto simp: freshDownload_apk split: prod.splits sum.splits)
    from download_keeps_dirs[OF this] d1 show ?thesis by simp
  next
    case False
    let ?w2 = "w1\<lparr>uuid_count := Suc (uuid_count w1)\<rparr>"
    let ?tmp = "path_join (tmpDirectory env) [uuid_string (entropy env (uuid_count w1))]"
    from ok mk False obtain v w3 where mk2: "fs_mkdir ?tmp ?w2 = (Inr v, w3)"
      by (auto simp: freshDownload_archive split: prod.splits sum.splits)
    let ?arch = "path_join ?tmp [uuid_string (entropy env (uuid_count w3)) @ ''.tar.gz'']"
    let ?w4 = "w3\<lparr>uuid_count := Suc (uuid_count w3)\<rparr>"
    from ok mk mk2 False obtain v1 w5 where
      dl: "downloadFileWithProgressTrackerAsync env url ?arch ''Downloading app archive''
             ''Successfully downloaded app archive'' ?w4 = (Inr v1, w5)"
      by (auto simp: freshDownload_archive split: prod.splits sum.splits)
    from ok mk mk2 dl False obtain v2 w6 where
      ex: "tarExtractAsync env ?arch d w5 = (Inr v2, w6)"
      and loc: "getAppPathAsync d ''(apk|app|ipa)'' w6 = (Inr p, w')"
      by (auto simp: freshDownload_archive split: prod.splits sum.splits)
    from d1 have "is_dir (root ?w2) q" by simp
    from fs_mkdir_keeps_dirs[OF mk2 this] have "is_dir (root ?w4) q" by simp
    from download_keeps_dirs[OF dl this] have "is_dir (root w5) q" .
    from tarExtractAsync_keeps_dirs[OF ex this] have "is_dir (root w6) q" .
    with getAppPathAsync_frame[OF loc] show ?thesis by simp
  qed
qed

lemma freshDownload_then_cached:
  assumes ok: "freshDownload env url (path_join a b) w = (Inr p, w')"
      and empty: "glob ''./**/*.(apk|app|ipa)'' (path_join a b) w = []"
  shows "cachedAppPath (path_join a b) w' = (Some (Inr p), w')"
proof -
  let ?d = "path_join a b"
  from ok obtain u w1 where mk: "fs_mkdir ?d w = (Inr u, w1)"
    by (auto simp: freshDownload_def split: prod.splits sum.splits)
  from glob_after_mkdir[OF empty mk]
  have e1: "glob ''./**/*.(apk|app|ipa)'' ?d w1 = []" and d1: "is_dir (root w1) ?d" by simp_all
  show ?thesis
  proof (cases "endsWith url ''apk''")
    case True
    let ?w2 = "w1\<lparr>uuid_count := Suc (uuid_count w1)\<rparr>"
    let ?n = "uuid_string (entropy env (uuid_count w1)) @ ''.apk''"
    from ok mk True obtain v where
      dl: "downloadFileWithProgressTrackerAsync env url (path_join ?d [?n])
         ''Downloading app'' ''Successfully downloaded app'' ?w2 = (Inr v, w')"
      and p: "p = path_join ?d [?n]"
      by (auto simp: freshDownload_apk split: prod.splits sum.splits)
    have pj: "path_join ?d [?n] = ?d @ [?n]"
      by (rule path_join_proper) (rule uuid_name_proper)
    from download_frame[OF dl] pj obtain r1 c where
      s1: "store (root ?w2) (?d @ [?n]) Truncated = Some r1"
      and s2: "store r1 (?d @ [?n]) c = Some (root w')" by auto
    have e2: "glob ''./**/*.(apk|app|ipa)'' ?d ?w2 = []"
      using e1 by (simp add: glob_def)
    have d2: "is_dir (root ?w2) ?d" using d1 by simp
    from glob_after_store[OF e2 d2 s1 s2 uuid_apk_matches]
    have g: "glob ''./**/*.(apk|app|ipa)'' ?d w' = [[?n]]" .
    then have "fs_pathExists ?d w'"
      by (auto simp: glob_def fs_pathExists_def split: option.splits)
    with g p show ?thesis
      by (simp add: cachedAppPath_def getAppPathAsync_def Let_def)
  next
    case False
    let ?w2 = "w1\<lparr>uuid_count := Suc (uuid_count w1)\<rparr>"
    let ?tmp = "path_join (tmpDirectory env) [uuid_string (entropy env (uuid_count w1))]"
    from ok mk False obtain v w3 where mk2: "fs_mkdir ?tmp ?w2 = (Inr v, w3)"
      by (auto simp: freshDownload_archive split: prod.splits sum.splits)
    let ?arch = "path_join ?tmp [uuid_string (entropy env (uuid_count w3)) @ ''.tar.gz'']"
    let ?w4 = "w3\<lparr>uuid_count := Suc (uuid_count w3)\<rparr>"
    from ok mk mk2 False obtain v1 w5 where
      dl: "downloadFileWithProgressTrackerAsync env url ?arch ''Downloading app archive''
             ''Successfully downloaded app archive'' ?w4 = (Inr v1, w5)"
      by (auto simp: freshDownload_archive split: prod.splits sum.splits)
    from ok mk mk2 dl False obtain v2 w6 where
      ex: "tarExtractAsync env ?arch ?d w5 = (Inr v2, w6)"
      and loc: "getAppPathAsync ?d ''(apk|app|ipa)'' w6 = (Inr p, w')"
      by (auto simp: freshDownload_archive split: prod.splits sum.splits)
    from cached_after_locate[OF loc] show ?thesis .
  qed
qed


subsection \<open>Running the examples\<close>

lemma uuid_string_0: "uuid_string 0 = ''00000000-0000-4000-8000-000000000000''"
  by (simp add: uuid_string_def hex_lower_def Let_def upt_conv_Cons)

lemma uuid_string_1: "uuid_string 1 = ''00000000-0000-4000-8000-000000000001''"
  by (simp add: uuid_string_def hex_lower_def Let_def upt_conv_Cons)

lemma name_myapk: "encodeURIComponent (strip_scheme ''https://h/myapk'') = ''h%2Fmyapk''"
  by (simp add: strip_scheme_def encodeURIComponent_def unreserved_def percent_escape_def
      hex_upper_def)

lemma name_archive: "encodeURIComponent (strip_scheme ''https://h/b.tar.gz'') = ''h%2Fb.tar.gz''"
  by (simp add: strip_scheme_def encodeURIComponent_def unreserved_def percent_escape_def
      hex_upper_def)

lemmas run_defs = downloadAndMaybeExtractAppAsync_def downloadsCacheDirectory_def Let_def
  cachedAppPath_def fs_pathExists_def path_join_def normalize_def fresh_world_def
  freshDownload_def fs_mkdir_def endsWith_def uuidv4_def example_env_def
  downloadFileWithProgressTrackerAsync_def wrapFetchWithProgress_def fetch_def
  example_server_def decimal_def isNaN_def js_negative_def pipeline_def Log_newLine_def
  body_events_def initial_state_def onProgress_def createProgressTracker_def js_div_def
  getAppPathAsync_def glob_def glob_match_def pattern_extensions_app
  tarExtractAsync_def spawnAsync_def tar_extract_def strict_tar_def lenient_tar_def
  escapes_def is_dir_def write_members_def write_member_def
  Log_warn_def Log_debug_def Log_log_def fs_remove_def show_path_def
  name_myapk name_archive uuid_string_0 uuid_string_1

subsection \<open>The extractor\<close>

lemma tarExtractAsync_win32:
  "platform env = ''win32'' \<Longrightarrow>
     tarExtractAsync env input output w
       = tar_extract env input output
           (Log_debug (''Extracting '' @ show_path input @ '' to '' @ show_path output
                       @ '' using JS tar module'') w)"
  by (simp add: tarExtractAsync_def)

lemma tarExtractAsync_native:
  "platform env \<noteq> ''win32'' \<Longrightarrow>
     spawnAsync env ''tar'' [Flag ''-xf'', PathArg input, Flag ''-C'', PathArg output] w
       = (Inr (), w1)
     \<Longrightarrow> tarExtractAsync env input output w = (Inr (), w1)"
  by (simp add: tarExtractAsync_def)

lemma tarExtractAsync_fallback:
  "platform env \<noteq> ''win32'' \<Longrightarrow>
     spawnAsync env ''tar'' [Flag ''-xf'', PathArg input, Flag ''-C'', PathArg output] w
       = (Inl e, w1)
     \<Longrightarrow> tarExtractAsync env input output w
           = tar_extract env input output
               (Log_debug (''Extracting '' @ show_path input @ '' to '' @ show_path output
                           @ '' using JS tar module'')
                  (Log_warn (''Failed to extract tar using native tools, falling back on JS tar module. ''
                             @ message_of e) w1))"
  by (simp add: tarExtractAsync_def)

lemma spawnAsync_frame:
  "spawnAsync env command args w = (res, w1) \<Longrightarrow>
     spawned w1 = spawned w @ [(command, args)] \<and> extracted w1 = extracted w
     \<and> logs w1 = logs w"
  by (auto simp: spawnAsync_def Let_def split: option.splits prod.splits if_splits)

lemma tar_extract_frame:
  "spawned (snd (tar_extract env input output w)) = spawned w
   \<and> extracted (snd (tar_extract env input output w)) = extracted w @ [(input, output)]
   \<and> logs (snd (tar_extract env input output w)) = logs w"
  by (simp add: tar_extract_run Let_def split: option.splits)

lemma tarExtractAsync_rescued:
  assumes unix: "platform env \<noteq> ''win32''"
      and fails: "isl (fst (spawnAsync env ''tar''
                    [Flag ''-xf'', PathArg input, Flag ''-C'', PathArg output] w))"
      and rescue: "tar_module env input output
                     (root (snd (spawnAsync env ''tar''
                        [Flag ''-xf'', PathArg input, Flag ''-C'', PathArg output] w)))
                   = (ms, None)"
      and begun: "take (length (fst (tar_process env input output (root w)))) ms
                   = fst (tar_process env input output (root w))"
  shows "fst (tarExtractAsync env input output w) = Inr ()
         \<and> root (snd (tarExtractAsync env input output w)) = write_members (root w) output ms"
proof -
  let ?S = "spawnAsync env ''tar'' [Flag ''-xf'', PathArg input, Flag ''-C'', PathArg output] w"
  from fails obtain e where e: "?S = (Inl e, snd ?S)"
    by (cases ?S; cases "fst ?S") auto
  have r1: "root (snd ?S)
      = write_members (root w) output (fst (tar_process env input output (root w)))"
    by (simp add: spawnAsync_tar Let_def split: option.splits)
  let ?v = "Log_debug (''Extracting '' @ show_path input @ '' to '' @ show_path output
                      @ '' using JS tar module'')
              (Log_warn (''Failed to extract tar using native tools, falling back on JS tar module. ''
                         @ message_of e) (snd ?S))"
  have rv: "root ?v = root (snd ?S)" by (simp add: Log_debug_def Log_warn_def)
  from tarExtractAsync_fallback[OF unix e]
  have T: "tarExtractAsync env input output w = tar_extract env input output ?v" .
  from rescue rv have "tar_extract env input output ?v
      = (Inr (), ?v\<lparr>extracted := extracted ?v @ [(input, output)],
                     root := write_members (root (snd ?S)) output ms\<rparr>)"
    by (simp add: tar_extract_run Let_def)
  with T r1 write_members_resumed[OF begun, of "root w" "output"] show ?thesis by simp
qed

text \<open>
  Claim C4. On every platform but win32, \<open>tarExtractAsync\<close> first starts the
  subprocess \<open>tar -xf input -C output\<close>; when it succeeds nothing else runs. On win32
  no subprocess is started and the in-process extractor runs at once. When the
  subprocess fails, for whatever reason and whatever it wrote before, a warning with
  the message of the error is logged and the in-process extractor runs on the same
  archive and the same output directory, in the tree the subprocess left; its result
  and its tree are those of the extraction. So the extraction fails exactly when the
  subprocess tier is skipped or fails, and the in-process tier then fails. Let the
  subprocess fail after it wrote none, the first few or all of the members that the
  in-process extractor then writes without an error. Then the extraction succeeds,
  and its tree and the bundle located in the output directory are those of every
  environment in which the subprocess works and writes these members.
\<close>

theorem tarExtractAsync_two_tier:
  "(platform env \<noteq> ''win32'' \<longrightarrow>
      spawned (snd (tarExtractAsync env input output w))
        = spawned w @ [(''tar'', [Flag ''-xf'', PathArg input, Flag ''-C'', PathArg output])])
   \<and> (platform env = ''win32'' \<longrightarrow>
        spawned (snd (tarExtractAsync env input output w)) = spawned w
        \<and> tarExtractAsync env input output w
            = tar_extract env input output
                (Log_debug (''Extracting '' @ show_path input @ '' to '' @ show_path output
                            @ '' using JS tar module'') w))
   \<and> (\<forall>w1. platform env \<noteq> ''win32''
          \<and> spawnAsync env ''tar'' [Flag ''-xf'', PathArg input, Flag ''-C'', PathArg output] w
              = (Inr (), w1)
        \<longrightarrow> tarExtractAsync env input output w = (Inr (), w1) \<and> extracted w1 = extracted w)
   \<and> (\<forall>e w1. platform env \<noteq> ''win32''
          \<and> spawnAsync env ''tar'' [Flag ''-xf'', PathArg input, Flag ''-C'', PathArg output] w
              = (Inl e, w1)
        \<longrightarrow> tarExtractAsync env input output w
              = tar_extract env input output
                  (Log_debug (''Extracting '' @ show_path input @ '' to '' @ show_path output
                              @ '' using JS tar module'')
                     (Log_warn (''Failed to extract tar using native tools, falling back on JS tar module. ''
                                @ message_of e) w1))
            \<and> extracted (snd (tarExtractAsync env input output w))
                = extracted w @ [(input, output)]
            \<and> logs (snd (tarExtractAsync env input output w))
                = logs w
                  @ [Warn (''Failed to extract tar using native tools, falling back on JS tar module. ''
                           @ message_of e),
                     Debug (''Extracting '' @ show_path input @ '' to '' @ show_path output
                            @ '' using JS tar module'')]
            \<and> fst (tarExtractAsync env input output w) = fst (tar_extract env input output w1)
            \<and> root (snd (tarExtractAsync env input output w))
                = root (snd (tar_extract env input output w1)))
   \<and> (isl (fst (tarExtractAsync env input output w))
        = (if platform env = ''win32'' then isl (fst (tar_extract env input output w))
           else isl (fst (spawnAsync env ''tar''
                            [Flag ''-xf'', PathArg input, Flag ''-C'', PathArg output] w))
                \<and> isl (fst (tar_extract env input output
                         (snd (spawnAsync env ''tar''
                                 [Flag ''-xf'', PathArg input, Flag ''-C'', PathArg output] w))))))
   \<and> (\<forall>env' ms. platform env \<noteq> ''win32'' \<and> platform env' \<noteq> ''win32''
          \<and> isl (fst (spawnAsync env ''tar''
                        [Flag ''-xf'', PathArg input, Flag ''-C'', PathArg output] w))
          \<and> tar_module env input output
               (root (snd (spawnAsync env ''tar''
                             [Flag ''-xf'', PathArg input, Flag ''-C'', PathArg output] w)))
              = (ms, None)
          \<and> tar_process env' input output (root w) = (ms, None)
          \<and> take (length (fst (tar_process env input output (root w)))) ms
              = fst (tar_process env input output (root w))
        \<longrightarrow> fst (tarExtractAsync env input output w) = Inr ()
            \<and> fst (tarExtractAsync env' input output w) = Inr ()
            \<and> root (snd (tarExtractAsync env input output w))
                = root (snd (tarExtractAsync env' input output w))
            \<and> fst (getAppPathAsync output ext (snd (tarExtractAsync env input output w)))
                = fst (getAppPathAsync output ext (snd (tarExtractAsync env' input output w))))"
proof (intro conjI impI allI)
  let ?A = "[Flag ''-xf'', PathArg input, Flag ''-C'', PathArg output]"
  let ?T = "tarExtractAsync env input output w"
  let ?S = "spawnAsync env ''tar'' ?A w"
  let ?m = "''Extracting '' @ show_path input @ '' to '' @ show_path output
            @ '' using JS tar module''"
  let ?f = "''Failed to extract tar using native tools, falling back on JS tar module. ''"
  have S: "?S = (fst ?S, snd ?S)" by simp
  note fS = spawnAsync_frame[OF S]
  {
    assume unix: "platform env \<noteq> ''win32''"
    show "spawned (snd ?T) = spawned w @ [(''tar'', ?A)]"
    proof (cases "fst ?S")
      case (Inl e)
      with S have "?S = (Inl e, snd ?S)" by simp
      from tarExtractAsync_fallback[OF unix this] fS show ?thesis
        by (simp add: tar_extract_frame Log_debug_def Log_warn_def)
    next
      case (Inr u)
      with S have "?S = (Inr (), snd ?S)" by simp
      from tarExtractAsync_native[OF unix this] fS show ?thesis by simp
    qed
  }
  {
    assume win: "platform env = ''win32''"
    from tarExtractAsync_win32[OF win]
    show "?T = tar_extract env input output (Log_debug ?m w)" .
    then show "spawned (snd ?T) = spawned w"
      by (simp add: tar_extract_frame Log_debug_def)
  }
  {
    fix w1
    assume h: "platform env \<noteq> ''win32'' \<and> ?S = (Inr (), w1)"
    then show "?T = (Inr (), w1)" by (simp add: tarExtractAsync_native)
    from h spawnAsync_frame[of env "''tar''" ?A w "Inr ()" w1]
    show "extracted w1 = extracted w" by simp
  }
  {
    fix e w1
    assume h: "platform env \<noteq> ''win32'' \<and> ?S = (Inl e, w1)"
    let ?v = "Log_debug ?m (Log_warn (?f @ message_of e) w1)"
    from h show T: "?T = tar_extract env input output ?v"
      by (simp add: tarExtractAsync_fallback)
    from h spawnAsync_frame[of env "''tar''" ?A w "Inl e" w1]
    have "extracted ?v = extracted w" by (simp add: Log_debug_def Log_warn_def)
    with T show "extracted (snd ?T) = extracted w @ [(input, output)]"
      by (simp add: tar_extract_frame)
    from h spawnAsync_frame[of env "''tar''" ?A w "Inl e" w1]
    have "logs ?v = logs w @ [Warn (?f @ message_of e), Debug ?m]"
      by (simp add: Log_debug_def Log_warn_def)
    with T show "logs (snd ?T) = logs w @ [Warn (?f @ message_of e), Debug ?m]"
      by (simp add: tar_extract_frame)
    have "root ?v = root w1" by (simp add: Log_debug_def Log_warn_def)
    from tar_extract_root[OF this, of env input "output"] T
    show "fst ?T = fst (tar_extract env input output w1)"
      and "root (snd ?T) = root (snd (tar_extract env input output w1))"
      by simp_all
  }
  show "isl (fst ?T)
        = (if platform env = ''win32'' then isl (fst (tar_extract env input output w))
           else isl (fst ?S) \<and> isl (fst (tar_extract env input output (snd ?S))))"
  proof (cases "platform env = ''win32''")
    case True
    have "root (Log_debug ?m w) = root w" by (simp add: Log_debug_def)
    from tar_extract_root[OF this, of env input "output"] tarExtractAsync_win32[OF True] True
    show ?thesis by simp
  next
    case False
    show ?thesis
    proof (cases "fst ?S")
      case (Inl e)
      with S have Se: "?S = (Inl e, snd ?S)" by simp
      have "root (Log_debug ?m (Log_warn (?f @ message_of e) (snd ?S))) = root (snd ?S)"
        by (simp add: Log_debug_def Log_warn_def)
      from tar_extract_root[OF this, of env input "output"] tarExtractAsync_fallback[OF False Se]
        False Inl
      show ?thesis by simp
    next
      case (Inr u)
      with S have "?S = (Inr (), snd ?S)" by simp
      from tarExtractAsync_native[OF False this] False Inr show ?thesis by simp
    qed
  qed
  {
    fix env' ms
    let ?T' = "tarExtractAsync env' input output w"
    assume h: "platform env \<noteq> ''win32'' \<and> platform env' \<noteq> ''win32''
          \<and> isl (fst ?S)
          \<and> tar_module env input output (root (snd ?S)) = (ms, None)
          \<and> tar_process env' input output (root w) = (ms, None)
          \<and> take (length (fst (tar_process env input output (root w)))) ms
              = fst (tar_process env input output (root w))"
    from h tarExtractAsync_rescued[of env input "output" w ms]
    have a: "fst ?T = Inr () \<and> root (snd ?T) = write_members (root w) output ms" by blast
    from h have "spawnAsync env' ''tar'' ?A w
        = (Inr (), w\<lparr>spawned := spawned w @ [(''tar'', ?A)],
                      root := write_members (root w) output ms\<rparr>)"
      by (simp add: spawnAsync_tar Let_def)
    with h tarExtractAsync_native[of env' input "output" w]
    have b: "fst ?T' = Inr () \<and> root (snd ?T') = write_members (root w) output ms" by simp
    from a show "fst ?T = Inr ()" by simp
    from b show "fst ?T' = Inr ()" by simp
    from a b show eq: "root (snd ?T) = root (snd ?T')" by simp
    from getAppPathAsync_root[OF eq]
    show "fst (getAppPathAsync output ext (snd ?T)) = fst (getAppPathAsync output ext (snd ?T'))" .
  }
qed

theorem tarExtractAsync_two_tier_witness:
  "isl (fst (spawnAsync example_env ''tar''
               [Flag ''-xf'', PathArg [''tmp'', ''a.tar.gz''], Flag ''-C'', PathArg [''tmp'', ''out'']]
               archive_world))
   \<and> root (snd (spawnAsync example_env ''tar''
               [Flag ''-xf'', PathArg [''tmp'', ''a.tar.gz''], Flag ''-C'', PathArg [''tmp'', ''out'']]
               archive_world))
       \<noteq> root archive_world
   \<and> fst (tarExtractAsync example_env [''tmp'', ''a.tar.gz''] [''tmp'', ''out''] archive_world)
       = Inr ()
   \<and> fst (getAppPathAsync [''tmp'', ''out''] ''(apk|app|ipa)''
          (snd (tarExtractAsync example_env
                  [''tmp'', ''a.tar.gz''] [''tmp'', ''out''] archive_world)))
       = fst (getAppPathAsync [''tmp'', ''out''] ''(apk|app|ipa)''
          (snd (tarExtractAsync (example_env\<lparr>tar_process := lenient_tar\<rparr>)
                  [''tmp'', ''a.tar.gz''] [''tmp'', ''out''] archive_world)))
   \<and> fst (getAppPathAsync [''tmp'', ''out''] ''(apk|app|ipa)''
          (snd (tarExtractAsync example_env
                  [''tmp'', ''a.tar.gz''] [''tmp'', ''out''] archive_world)))
       = Inr [''tmp'', ''out'', ''payload'', ''MyApp.app'']
   \<and> spawned (snd (tarExtractAsync example_env
          [''tmp'', ''a.tar.gz''] [''tmp'', ''out''] archive_world))
       = spawned archive_world
         @ [(''tar'', [Flag ''-xf'', PathArg [''tmp'', ''a.tar.gz''], Flag ''-C'',
                       PathArg [''tmp'', ''out'']])]
   \<and> extracted (snd (tarExtractAsync example_env
          [''tmp'', ''a.tar.gz''] [''tmp'', ''out''] archive_world))
       = [([''tmp'', ''a.tar.gz''], [''tmp'', ''out''])]
   \<and> fst (tarExtractAsync (example_env\<lparr>tar_process := no_tar\<rparr>)
          [''tmp'', ''a.tar.gz''] [''tmp'', ''out''] archive_world) = Inr ()
   \<and> spawned (snd (tarExtractAsync (example_env\<lparr>platform := ''win32''\<rparr>)
          [''tmp'', ''a.tar.gz''] [''tmp'', ''out''] archive_world)) = spawned archive_world"
proof -
  let ?env = "example_env"
  let ?ok = "example_env\<lparr>tar_process := lenient_tar\<rparr>"
  let ?none = "example_env\<lparr>tar_process := no_tar\<rparr>"
  let ?win = "example_env\<lparr>platform := ''win32''\<rparr>"
  let ?a = "[''tmp'', ''a.tar.gz'']" and ?o = "[''tmp'', ''out'']"
  let ?A = "[Flag ''-xf'', PathArg ?a, Flag ''-C'', PathArg ?o]"
  let ?ms = "[MDir [''payload''], MFile [''payload'', ''MyApp.app'']]"
  let ?S = "spawnAsync ?env ''tar'' ?A archive_world"
  have tools: "tar_process ?env = strict_tar" "tar_module ?env = lenient_tar"
    "tar_process ?ok = lenient_tar" "tar_module ?none = lenient_tar"
    "tar_process ?none = no_tar"
    by (simp_all add: example_env_def)
  have strict: "strict_tar ?a ?o (root archive_world)
                  = (?ms, Some ''tar exited with non-zero code: 2'')"
    by (simp add: strict_tar_def archive_world_def escapes_def is_dir_def)
  have S: "?S = (Inl (Error ''tar exited with non-zero code: 2''),
                 archive_world\<lparr>spawned := spawned archive_world @ [(''tar'', ?A)],
                   root := write_members (root archive_world) ?o ?ms\<rparr>)"
    by (simp add: spawnAsync_tar tools strict Let_def)
  have left: "write_members (root archive_world) ?o ?ms
      = Dir [(''tmp'', Dir [(''a.tar.gz'',
                 File (Archive [MDir [''payload''], MFile [''payload'', ''MyApp.app''],
                                MFile [''..'', ''evil.apk'']])),
               (''out'', Dir [(''payload'', Dir [(''MyApp.app'', File Opaque)])])])]"
    by (simp add: write_members_def write_member_def archive_world_def)
  have failed: "isl (fst ?S)" by (simp add: S)
  have wrote: "root (snd ?S) \<noteq> root archive_world"
    unfolding S by (simp add: left) (simp add: archive_world_def)
  have lenient: "lenient_tar ?a ?o (root (snd ?S)) = (?ms, None)"
    unfolding S by (simp add: left) (simp add: lenient_tar_def escapes_def is_dir_def)
  have lenient0: "lenient_tar ?a ?o (root archive_world) = (?ms, None)"
    by (simp add: lenient_tar_def archive_world_def escapes_def is_dir_def)
  have p1: "platform ?env \<noteq> ''win32''" by (simp add: example_env_def)
  have h6: "platform ?env \<noteq> ''win32'' \<and> platform ?ok \<noteq> ''win32''
          \<and> isl (fst ?S)
          \<and> tar_module ?env ?a ?o (root (snd ?S)) = (?ms, None)
          \<and> tar_process ?ok ?a ?o (root archive_world) = (?ms, None)
          \<and> take (length (fst (tar_process ?env ?a ?o (root archive_world)))) ?ms
              = fst (tar_process ?env ?a ?o (root archive_world))"
    using failed lenient lenient0 by (simp add: tools strict) (simp add: example_env_def)
  note inst = tarExtractAsync_two_tier[of ?env ?a ?o archive_world "''(apk|app|ipa)''"]
  note first = inst[THEN conjunct1, rule_format, OF p1]
  note fell = inst[THEN conjunct2, THEN conjunct2, THEN conjunct2, THEN conjunct1,
      rule_format, OF conjI[OF p1 S]]
  note rescued = inst[THEN conjunct2, THEN conjunct2, THEN conjunct2, THEN conjunct2,
      THEN conjunct2, rule_format, OF h6]
  have ex: "extracted (snd (tarExtractAsync ?env ?a ?o archive_world)) = [(?a, ?o)]"
    using fell[THEN conjunct2, THEN conjunct1] by (simp add: archive_world_def)
  have "root (snd (tarExtractAsync ?env ?a ?o archive_world))
      = write_members (root archive_world) ?o ?ms"
    using fell[THEN conjunct2, THEN conjunct2, THEN conjunct2, THEN conjunct2] lenient
    unfolding S by (simp add: tar_extract_run tools Let_def left)
      (simp add: write_members_def write_member_def)
  then have located: "fst (getAppPathAsync ?o ''(apk|app|ipa)''
        (snd (tarExtractAsync ?env ?a ?o archive_world)))
       = Inr [''tmp'', ''out'', ''payload'', ''MyApp.app'']"
    by (simp add: left getAppPathAsync_def glob_def glob_match_def pattern_extensions_app
        endsWith_def path_join_def normalize_def Let_def)
  have p2: "platform ?none \<noteq> ''win32''" by (simp add: example_env_def)
  let ?N = "spawnAsync ?none ''tar'' ?A archive_world"
  have N: "?N = (Inl (Error ''spawn tar ENOENT''),
                 archive_world\<lparr>spawned := spawned archive_world @ [(''tar'', ?A)],
                   root := write_members (root archive_world) ?o []\<rparr>)"
    by (simp add: spawnAsync_tar tools no_tar_def Let_def)
  note missing = tarExtractAsync_two_tier[of ?none ?a ?o archive_world,
      THEN conjunct2, THEN conjunct2, THEN conjunct2, THEN conjunct1, rule_format,
      OF conjI[OF p2 N], THEN conjunct2, THEN conjunct2, THEN conjunct2, THEN conjunct1]
  have enoent: "fst (tarExtractAsync ?none ?a ?o archive_world) = Inr ()"
    unfolding missing
    by (simp add: tar_extract_run tools Let_def write_members_def lenient0)
  have h3: "platform ?win = ''win32''" by simp
  note win = tarExtractAsync_two_tier[of ?win ?a ?o archive_world,
      THEN conjunct2, THEN conjunct1, rule_format, OF h3, THEN conjunct1]
  show ?thesis
    by (rule conjI[OF failed conjI[OF wrote conjI[OF rescued[THEN conjunct1]
          conjI[OF rescued[THEN conjunct2, THEN conjunct2, THEN conjunct2]
          conjI[OF located conjI[OF first conjI[OF ex conjI[OF enoent win]]]]]]]])
qed

subsection \<open>The cache\<close>

text \<open>
  Claim C3. Let the cache directory of the URL exist and let locating a bundle in it
  fail. If the failure is the InternalError of an ambiguous match, it is the result
  of the call, no request is sent and the tree is unchanged. If it is any other error
  (no bundle found), the error is dropped, the world is as before the lookup, and the
  call goes on as the fresh download into the same output directory; when that
  directory is a directory, creating it is a no-operation and a request for the URL
  is sent, unless the temporary workspace of an archive download cannot be created.
\<close>

theorem cache_entry_failure_policy:
  assumes cache: "downloadsCacheDirectory env w = (Inr cacheDir, w0)"
      and out: "outputDir = path_join cacheDir [encodeURIComponent (strip_scheme url)]"
      and exists: "fs_pathExists outputDir w0"
      and fails: "getAppPathAsync outputDir ''(apk|app|ipa)'' w0 = (Inl e, w1)"
  shows "(\<forall>c m a. e = InternalError c m a \<longrightarrow>
            downloadAndMaybeExtractAppAsync env url w = (Inl e, w1)
            \<and> requests w1 = requests w \<and> root w1 = root w0)
         \<and> (\<forall>m. e = Error m \<longrightarrow>
              w1 = w0
              \<and> downloadAndMaybeExtractAppAsync env url w = freshDownload env url outputDir w0
              \<and> (is_dir (root w0) outputDir \<longrightarrow>
                    fs_mkdir outputDir w0 = (Inr (), w0)
                    \<and> (requests (snd (downloadAndMaybeExtractAppAsync env url w))
                          = requests w @ [(url, 300000)]
                        \<or> (\<not> endsWith url ''apk''
                            \<and> isl (fst (fs_mkdir (path_join (tmpDirectory env)
                                     [uuid_string (entropy env (uuid_count w0))])
                                   (w0\<lparr>uuid_count := Suc (uuid_count w0)\<rparr>)))))))"
proof (intro conjI allI impI)
  fix c m a
  assume e: "e = InternalError c m a"
  with cache out exists fails
  show "downloadAndMaybeExtractAppAsync env url w = (Inl e, w1)"
    by (simp add: downloadAndMaybeExtractAppAsync_def Let_def cachedAppPath_def)
  from getAppPathAsync_frame[OF fails] show "root w1 = root w0" by simp
  from getAppPathAsync_frame[OF fails] have "requests w1 = requests w0" by simp
  moreover from cache have "requests w0 = requests w"
    by (auto simp: downloadsCacheDirectory_def Let_def split: prod.splits sum.splits
        dest: fs_mkdir_frame)
  ultimately show "requests w1 = requests w" by simp
next
  fix m
  assume e: "e = Error m"
  with fails show w10: "w1 = w0"
    by (auto simp: getAppPathAsync_def Let_def split: if_splits)
  from e cache out exists fails w10
  show R: "downloadAndMaybeExtractAppAsync env url w = freshDownload env url outputDir w0"
    by (simp add: downloadAndMaybeExtractAppAsync_def Let_def cachedAppPath_def)
  assume dir: "is_dir (root w0) outputDir"
  then show mk: "fs_mkdir outputDir w0 = (Inr (), w0)"
    by (rule fs_mkdir_existing)
  from cache have "requests w0 = requests w"
    by (auto simp: downloadsCacheDirectory_def Let_def split: prod.splits sum.splits
        dest: fs_mkdir_frame)
  with freshDownload_requests[OF mk, of env url] R
  show "requests (snd (downloadAndMaybeExtractAppAsync env url w)) = requests w @ [(url, 300000)]
        \<or> (\<not> endsWith url ''apk''
            \<and> isl (fst (fs_mkdir (path_join (tmpDirectory env)
                     [uuid_string (entropy env (uuid_count w0))])
                   (w0\<lparr>uuid_count := Suc (uuid_count w0)\<rparr>))))"
    by simp
qed


theorem cache_entry_failure_policy_witness:
  "fst (downloadAndMaybeExtractAppAsync example_env ''https://h/b.tar.gz'' ambiguous_world)
     = Inl (InternalError ''MULTIPLE_APPS_IN_TARBALL'' ''Multiple apps detected in the tarball.''
         [\<lparr>name = [''a.apk''],
            path = [''tmp'', ''downloads-cache'', ''h%2Fb.tar.gz'', ''a.apk'']\<rparr>,
          \<lparr>name = [''b.ipa''],
            path = [''tmp'', ''downloads-cache'', ''h%2Fb.tar.gz'', ''b.ipa'']\<rparr>])
   \<and> requests (snd (downloadAndMaybeExtractAppAsync example_env ''https://h/b.tar.gz''
          ambiguous_world)) = requests ambiguous_world
   \<and> downloadAndMaybeExtractAppAsync example_env ''https://h/b.tar.gz'' corrupt_world
       = freshDownload example_env ''https://h/b.tar.gz''
           [''tmp'', ''downloads-cache'', ''h%2Fb.tar.gz''] corrupt_world
   \<and> requests (snd (downloadAndMaybeExtractAppAsync example_env ''https://h/b.tar.gz''
          corrupt_world)) = [(''https://h/b.tar.gz'', 300000)]
   \<and> fst (downloadAndMaybeExtractAppAsync example_env ''https://h/b.tar.gz'' corrupt_world)
       = Inr [''tmp'', ''downloads-cache'', ''h%2Fb.tar.gz'', ''payload'', ''MyApp.app'']"
proof -
  let ?url = "''https://h/b.tar.gz''"
  let ?c = "[''tmp'', ''downloads-cache'']"
  let ?d = "[''tmp'', ''downloads-cache'', ''h%2Fb.tar.gz'']"
  let ?e = "InternalError ''MULTIPLE_APPS_IN_TARBALL'' ''Multiple apps detected in the tarball.''
         [\<lparr>name = [''a.apk''],
            path = [''tmp'', ''downloads-cache'', ''h%2Fb.tar.gz'', ''a.apk'']\<rparr>,
          \<lparr>name = [''b.ipa''],
            path = [''tmp'', ''downloads-cache'', ''h%2Fb.tar.gz'', ''b.ipa'']\<rparr>]"
  have out: "?d = path_join ?c [encodeURIComponent (strip_scheme ?url)]"
    by (simp add: name_archive path_join_def normalize_def)
  have a1: "downloadsCacheDirectory example_env ambiguous_world = (Inr ?c, ambiguous_world)"
    by (simp add: downloadsCacheDirectory_def example_env_def ambiguous_world_def fs_mkdir_def
        path_join_def normalize_def Let_def)
  have a2: "fs_pathExists ?d ambiguous_world"
    by (simp add: fs_pathExists_def ambiguous_world_def)
  have "fst (getAppPathAsync ?d ''(apk|app|ipa)'' ambiguous_world) = Inl ?e"
    by (simp add: getAppPathAsync_def glob_def glob_match_def pattern_extensions_app
        endsWith_def ambiguous_world_def path_join_def normalize_def Let_def)
  then have a3: "getAppPathAsync ?d ''(apk|app|ipa)'' ambiguous_world
      = (Inl ?e, snd (getAppPathAsync ?d ''(apk|app|ipa)'' ambiguous_world))"
    by (metis prod.collapse)
  note amb = cache_entry_failure_policy[OF a1 out a2 a3, THEN conjunct1, rule_format, OF refl]
  from amb have r1: "fst (downloadAndMaybeExtractAppAsync example_env ?url ambiguous_world) = Inl ?e"
    by simp
  from amb have r2: "requests (snd (downloadAndMaybeExtractAppAsync example_env ?url ambiguous_world))
      = requests ambiguous_world"
    by simp
  have c1: "downloadsCacheDirectory example_env corrupt_world = (Inr ?c, corrupt_world)"
    by (simp add: downloadsCacheDirectory_def example_env_def corrupt_world_def fs_mkdir_def
        path_join_def normalize_def Let_def)
  have c2: "fs_pathExists ?d corrupt_world"
    by (simp add: fs_pathExists_def corrupt_world_def)
  have c3: "getAppPathAsync ?d ''(apk|app|ipa)'' corrupt_world
      = (Inl (Error ''Did not find any installable apps inside tarball.''), corrupt_world)"
    by (simp add: getAppPathAsync_def glob_def glob_match_def pattern_extensions_app
        endsWith_def corrupt_world_def Let_def)
  note cor = cache_entry_failure_policy[OF c1 out c2 c3, THEN conjunct2, rule_format, OF refl]
  from cor have r3: "downloadAndMaybeExtractAppAsync example_env ?url corrupt_world
       = freshDownload example_env ?url ?d corrupt_world"
    by simp
  have r4: "requests (snd (downloadAndMaybeExtractAppAsync example_env ?url corrupt_world))
      = [(?url, 300000)]"
    by (simp add: run_defs corrupt_world_def)
  have r5: "fst (downloadAndMaybeExtractAppAsync example_env ?url corrupt_world)
       = Inr [''tmp'', ''downloads-cache'', ''h%2Fb.tar.gz'', ''payload'', ''MyApp.app'']"
    by (simp add: run_defs corrupt_world_def)
  show ?thesis
    by (rule conjI[OF r1 conjI[OF r2 conjI[OF r3 conjI[OF r4 r5]]]])
qed

text \<open>
  Claim C10. Let there be no valid cache entry (no bundle is found in the output
  directory, or the directory does not exist) and let the directory be created. If
  the last three characters of the URL are \<open>apk\<close>, with or without a dot before them,
  the call downloads the URL into a file of the output directory whose name is a
  random identifier followed by \<open>.apk\<close>, returns that path when the download
  succeeds, and runs no extraction. Otherwise a successful call has run an extraction
  and returns the single bundle located in the output directory.
\<close>

theorem apk_suffix_decides_branch:
  assumes cache: "downloadsCacheDirectory env w = (Inr cacheDir, w0)"
      and out: "outputDir = path_join cacheDir [encodeURIComponent (strip_scheme url)]"
      and miss: "glob ''./**/*.(apk|app|ipa)'' outputDir w0 = []"
      and mk: "fs_mkdir outputDir w0 = (Inr (), w2)"
  shows "(endsWith url ''apk'' \<longrightarrow>
            downloadAndMaybeExtractAppAsync env url w
              = (case downloadFileWithProgressTrackerAsync env url
                        (outputDir @ [uuid_string (entropy env (uuid_count w2)) @ ''.apk''])
                        ''Downloading app'' ''Successfully downloaded app''
                        (w2\<lparr>uuid_count := Suc (uuid_count w2)\<rparr>) of
                   (Inl e, w3) \<Rightarrow> (Inl e, w3)
                 | (Inr v, w3) \<Rightarrow>
                     (Inr (outputDir @ [uuid_string (entropy env (uuid_count w2)) @ ''.apk'']), w3))
            \<and> endsWith (uuid_string (entropy env (uuid_count w2)) @ ''.apk'') ''.apk''
            \<and> requests (snd (downloadAndMaybeExtractAppAsync env url w))
                = requests w @ [(url, 300000)]
            \<and> spawned (snd (downloadAndMaybeExtractAppAsync env url w)) = spawned w
            \<and> extracted (snd (downloadAndMaybeExtractAppAsync env url w)) = extracted w)
         \<and> (\<not> endsWith url ''apk'' \<longrightarrow>
              (\<forall>p. fst (downloadAndMaybeExtractAppAsync env url w) = Inr p \<longrightarrow>
                 (spawned (snd (downloadAndMaybeExtractAppAsync env url w)) \<noteq> spawned w
                  \<or> extracted (snd (downloadAndMaybeExtractAppAsync env url w)) \<noteq> extracted w)
                 \<and> (\<exists>m. glob ''./**/*.(apk|app|ipa)'' outputDir
                            (snd (downloadAndMaybeExtractAppAsync env url w)) = [m]
                          \<and> p = path_join outputDir m)))"
proof -
  let ?R = "downloadAndMaybeExtractAppAsync env url w"
  from cache have fr0: "requests w0 = requests w \<and> spawned w0 = spawned w
      \<and> extracted w0 = extracted w"
    by (auto simp: downloadsCacheDirectory_def Let_def split: prod.splits sum.splits
        dest: fs_mkdir_frame)
  from fs_mkdir_frame[OF mk] fr0 have fr2: "requests w2 = requests w \<and> spawned w2 = spawned w
      \<and> extracted w2 = extracted w" by simp
  from cache out cachedAppPath_miss[OF miss]
  have R: "?R = freshDownload env url outputDir w0"
    by (simp add: downloadAndMaybeExtractAppAsync_def Let_def)
  let ?n = "uuid_string (entropy env (uuid_count w2)) @ ''.apk''"
  have pj: "path_join outputDir [?n] = outputDir @ [?n]"
    unfolding out by (rule path_join_proper) (rule uuid_name_proper)
  show ?thesis
  proof (intro conjI impI allI)
    assume apk: "endsWith url ''apk''"
    let ?w3 = "w2\<lparr>uuid_count := Suc (uuid_count w2)\<rparr>"
    obtain res w4 where dl: "downloadFileWithProgressTrackerAsync env url (outputDir @ [?n])
        ''Downloading app'' ''Successfully downloaded app'' ?w3 = (res, w4)"
      by (cases "downloadFileWithProgressTrackerAsync env url (outputDir @ [?n])
        ''Downloading app'' ''Successfully downloaded app'' ?w3")
    from R apk mk pj
    show eq: "?R = (case downloadFileWithProgressTrackerAsync env url (outputDir @ [?n])
                        ''Downloading app'' ''Successfully downloaded app'' ?w3 of
                   (Inl e, w3) \<Rightarrow> (Inl e, w3)
                 | (Inr v, w3) \<Rightarrow> (Inr (outputDir @ [?n]), w3))"
      by (simp add: freshDownload_apk split: prod.splits sum.splits)
    show "endsWith ?n ''.apk''" by (rule endsWith_append)
    from eq dl have w4: "snd ?R = w4" by (simp split: sum.splits)
    from download_frame[OF dl] fr2 w4
    show "requests (snd ?R) = requests w @ [(url, 300000)]"
      and "spawned (snd ?R) = spawned w" and "extracted (snd ?R) = extracted w"
      by simp_all
  next
    fix p
    assume arch: "\<not> endsWith url ''apk''" and ok: "fst ?R = Inr p"
    let ?w3 = "w2\<lparr>uuid_count := Suc (uuid_count w2)\<rparr>"
    let ?tmp = "path_join (tmpDirectory env) [uuid_string (entropy env (uuid_count w2))]"
    from ok have okp: "?R = (Inr p, snd ?R)" by (metis prod.collapse)
    with R have fr: "freshDownload env url outputDir w0 = (Inr p, snd ?R)" by simp
    from fr mk arch obtain v w4 where mk2: "fs_mkdir ?tmp ?w3 = (Inr v, w4)"
      by (auto simp: freshDownload_archive split: prod.splits sum.splits)
    let ?arch = "path_join ?tmp [uuid_string (entropy env (uuid_count w4)) @ ''.tar.gz'']"
    let ?w5 = "w4\<lparr>uuid_count := Suc (uuid_count w4)\<rparr>"
    from fr mk mk2 arch obtain v1 w6 where
      dl: "downloadFileWithProgressTrackerAsync env url ?arch ''Downloading app archive''
             ''Successfully downloaded app archive'' ?w5 = (Inr v1, w6)"
      by (auto simp: freshDownload_archive split: prod.splits sum.splits)
    from fr mk mk2 dl arch obtain v2 w7 where
      ex: "tarExtractAsync env ?arch outputDir w6 = (Inr v2, w7)"
      and loc: "getAppPathAsync outputDir ''(apk|app|ipa)'' w7 = (Inr p, snd ?R)"
      by (auto simp: freshDownload_archive split: prod.splits sum.splits)
    from fs_mkdir_frame[OF mk2] fr2 have "spawned w4 = spawned w \<and> extracted w4 = extracted w"
      by simp
    with download_frame[OF dl] have "spawned w6 = spawned w \<and> extracted w6 = extracted w"
      by simp
    with tarExtractAsync_frame[OF ex]
    have "spawned w7 \<noteq> spawned w \<or> extracted w7 \<noteq> extracted w" by auto
    with getAppPathAsync_success[OF loc]
    show "spawned (snd ?R) \<noteq> spawned w \<or> extracted (snd ?R) \<noteq> extracted w" by simp
    from getAppPathAsync_success[OF loc]
    show "\<exists>m. glob ''./**/*.(apk|app|ipa)'' outputDir (snd ?R) = [m] \<and> p = path_join outputDir m"
      by simp
  qed
qed


theorem apk_suffix_decides_branch_witness:
  "endsWith ''https://h/myapk'' ''apk'' \<and> \<not> endsWith ''https://h/myapk'' ''.apk''
   \<and> fst (downloadAndMaybeExtractAppAsync example_env ''https://h/myapk'' fresh_world)
       = Inr [''tmp'', ''downloads-cache'', ''h%2Fmyapk'',
              ''00000000-0000-4000-8000-000000000000.apk'']
   \<and> requests (snd (downloadAndMaybeExtractAppAsync example_env ''https://h/myapk'' fresh_world))
       = requests fresh_world @ [(''https://h/myapk'', 300000)]
   \<and> spawned (snd (downloadAndMaybeExtractAppAsync example_env ''https://h/myapk'' fresh_world))
       = spawned fresh_world
   \<and> extracted (snd (downloadAndMaybeExtractAppAsync example_env ''https://h/myapk'' fresh_world))
       = extracted fresh_world
   \<and> \<not> endsWith ''https://h/b.tar.gz'' ''apk''
   \<and> extracted (snd (downloadAndMaybeExtractAppAsync example_env ''https://h/b.tar.gz''
          fresh_world)) = extracted fresh_world
   \<and> spawned (snd (downloadAndMaybeExtractAppAsync example_env ''https://h/b.tar.gz'' fresh_world))
       \<noteq> spawned fresh_world"
proof -
  let ?c = "[''tmp'', ''downloads-cache'']"
  let ?w0 = "fresh_world\<lparr>root := Dir [(''tmp'', Dir [(''downloads-cache'', Dir [])])]\<rparr>"
  have cache: "downloadsCacheDirectory example_env fresh_world = (Inr ?c, ?w0)"
    by (simp add: downloadsCacheDirectory_def example_env_def fresh_world_def fs_mkdir_def
        path_join_def normalize_def Let_def)
  let ?url = "''https://h/myapk''"
  let ?d = "[''tmp'', ''downloads-cache'', ''h%2Fmyapk'']"
  let ?w2 = "fresh_world\<lparr>root := Dir [(''tmp'', Dir [(''downloads-cache'',
                Dir [(''h%2Fmyapk'', Dir [])])])]\<rparr>"
  have out: "?d = path_join ?c [encodeURIComponent (strip_scheme ?url)]"
    by (simp add: name_myapk path_join_def normalize_def)
  have miss: "glob ''./**/*.(apk|app|ipa)'' ?d ?w0 = []"
    by (simp add: glob_def fresh_world_def)
  have mk: "fs_mkdir ?d ?w0 = (Inr (), ?w2)"
    by (simp add: fs_mkdir_def fresh_world_def)
  have apk: "endsWith ?url ''apk''" by (simp add: endsWith_def)
  have nodot: "\<not> endsWith ?url ''.apk''" by (simp add: endsWith_def)
  note a = apk_suffix_decides_branch[OF cache out miss mk, THEN conjunct1, rule_format, OF apk]
  have r1: "fst (downloadAndMaybeExtractAppAsync example_env ?url fresh_world)
       = Inr [''tmp'', ''downloads-cache'', ''h%2Fmyapk'',
              ''00000000-0000-4000-8000-000000000000.apk'']"
    by (simp add: run_defs)
  note r2 = a[THEN conjunct2, THEN conjunct2, THEN conjunct1]
  note r3 = a[THEN conjunct2, THEN conjunct2, THEN conjunct2, THEN conjunct1]
  note r4 = a[THEN conjunct2, THEN conjunct2, THEN conjunct2, THEN conjunct2]
  let ?url' = "''https://h/b.tar.gz''"
  let ?d' = "[''tmp'', ''downloads-cache'', ''h%2Fb.tar.gz'']"
  let ?w2' = "fresh_world\<lparr>root := Dir [(''tmp'', Dir [(''downloads-cache'',
                Dir [(''h%2Fb.tar.gz'', Dir [])])])]\<rparr>"
  let ?p' = "[''tmp'', ''downloads-cache'', ''h%2Fb.tar.gz'', ''payload'', ''MyApp.app'']"
  have out': "?d' = path_join ?c [encodeURIComponent (strip_scheme ?url')]"
    by (simp add: name_archive path_join_def normalize_def)
  have miss': "glob ''./**/*.(apk|app|ipa)'' ?d' ?w0 = []"
    by (simp add: glob_def fresh_world_def)
  have mk': "fs_mkdir ?d' ?w0 = (Inr (), ?w2')"
    by (simp add: fs_mkdir_def fresh_world_def)
  have arch: "\<not> endsWith ?url' ''apk''" by (simp add: endsWith_def)
  have ok: "fst (downloadAndMaybeExtractAppAsync example_env ?url' fresh_world) = Inr ?p'"
    by (simp add: run_defs)
  note b = apk_suffix_decides_branch[OF cache out' miss' mk', THEN conjunct2, rule_format,
      OF arch ok, THEN conjunct1]
  have same: "extracted (snd (downloadAndMaybeExtractAppAsync example_env ?url' fresh_world))
      = extracted fresh_world"
    by (simp add: run_defs)
  from b same
  have ran: "spawned (snd (downloadAndMaybeExtractAppAsync example_env ?url' fresh_world))
      \<noteq> spawned fresh_world"
    by blast
  show ?thesis
    by (rule conjI[OF apk conjI[OF nodot conjI[OF r1 conjI[OF r2 conjI[OF r3 conjI[OF r4
          conjI[OF arch conjI[OF same ran]]]]]]]])
qed

text \<open>
  Claim C2. When a call of \<open>downloadAndMaybeExtractAppAsync\<close> succeeds, a second call
  with the same URL, in the world the first call left, returns the same path and
  leaves the world as it is: it sends no request.
\<close>

theorem second_call_is_cache_hit:
  assumes first: "downloadAndMaybeExtractAppAsync env url w = (Inr appPath, w')"
  shows "downloadAndMaybeExtractAppAsync env url w' = (Inr appPath, w')
         \<and> requests (snd (downloadAndMaybeExtractAppAsync env url w')) = requests w'"
proof -
  let ?name = "encodeURIComponent (strip_scheme url)"
  let ?cache = "path_join (tmpDirectory env) [''downloads-cache'']"
  let ?d = "path_join ?cache [?name]"
  from first obtain cacheDir w0 where c0: "downloadsCacheDirectory env w = (Inr cacheDir, w0)"
    by (auto simp: downloadAndMaybeExtractAppAsync_def Let_def split: prod.splits sum.splits)
  from downloadsCacheDirectory_success[OF c0]
  have cd: "cacheDir = ?cache" and dir0: "is_dir (root w0) ?cache" by blast+
  obtain res w1 where ca: "cachedAppPath ?d w0 = (res, w1)"
    by (cases "cachedAppPath ?d w0")
  have again: "downloadsCacheDirectory env w' = (Inr ?cache, w')
               \<and> cachedAppPath ?d w' = (Some (Inr appPath), w')"
  proof -
    from cachedAppPath_cases[OF ca]
    consider (miss) "res = None" "w1 = w0" "glob ''./**/*.(apk|app|ipa)'' ?d w0 = []"
      | (hit) p where "res = Some (Inr p)" "w1 = w0"
          "getAppPathAsync ?d ''(apk|app|ipa)'' w0 = (Inr p, w0)"
      | (ambiguous) c m a where "res = Some (Inl (InternalError c m a))"
      by blast
    then show ?thesis
    proof cases
      case miss
      with first c0 cd ca have fr: "freshDownload env url ?d w0 = (Inr appPath, w')"
        by (simp add: downloadAndMaybeExtractAppAsync_def Let_def)
      from freshDownload_keeps_dirs[OF fr dir0] have "is_dir (root w') ?cache" .
      then have "downloadsCacheDirectory env w' = (Inr ?cache, w')"
        by (rule downloadsCacheDirectory_existing)
      moreover from freshDownload_then_cached[OF fr miss(3)]
      have "cachedAppPath ?d w' = (Some (Inr appPath), w')" .
      ultimately show ?thesis by simp
    next
      case hit
      with first c0 cd ca have "appPath = p" "w' = w0"
        by (simp_all add: downloadAndMaybeExtractAppAsync_def Let_def)
      with hit ca dir0 downloadsCacheDirectory_existing[of w0 env] show ?thesis
        by simp
    next
      case ambiguous
      with first c0 cd ca show ?thesis
        by (simp add: downloadAndMaybeExtractAppAsync_def Let_def)
    qed
  qed
  then show ?thesis
    by (simp add: downloadAndMaybeExtractAppAsync_def Let_def)
qed

theorem second_call_is_cache_hit_witness:
  "fst (downloadAndMaybeExtractAppAsync example_env ''https://h/b.tar.gz'' fresh_world)
     = Inr [''tmp'', ''downloads-cache'', ''h%2Fb.tar.gz'', ''payload'', ''MyApp.app'']
   \<and> downloadAndMaybeExtractAppAsync example_env ''https://h/b.tar.gz''
        (snd (downloadAndMaybeExtractAppAsync example_env ''https://h/b.tar.gz'' fresh_world))
       = (Inr [''tmp'', ''downloads-cache'', ''h%2Fb.tar.gz'', ''payload'', ''MyApp.app''],
          snd (downloadAndMaybeExtractAppAsync example_env ''https://h/b.tar.gz'' fresh_world))
   \<and> requests (snd (downloadAndMaybeExtractAppAsync example_env ''https://h/b.tar.gz'' fresh_world))
       = [(''https://h/b.tar.gz'', 300000)]"
proof -
  let ?R = "downloadAndMaybeExtractAppAsync example_env ''https://h/b.tar.gz'' fresh_world"
  let ?p = "[''tmp'', ''downloads-cache'', ''h%2Fb.tar.gz'', ''payload'', ''MyApp.app'']"
  have f: "fst ?R = Inr ?p"
    by (simp add: run_defs)
  have rq: "requests (snd ?R) = [(''https://h/b.tar.gz'', 300000)]"
    by (simp add: run_defs)
  from f have "?R = (Inr ?p, snd ?R)"
    by (metis prod.collapse)
  from second_call_is_cache_hit[OF this]
  have again: "downloadAndMaybeExtractAppAsync example_env ''https://h/b.tar.gz'' (snd ?R)
                 = (Inr ?p, snd ?R)" by (rule conjunct1)
  show ?thesis
    by (rule conjI[OF f conjI[OF again rq]])
qed

end
